theory Spec2Isabelle
  imports Main "HOL-Library.Char_ord" "HOL-Library.List_Lexorder"
begin

section \<open>Podcast transcriber (transcribe.py): a shallow embedding\<close>

text \<open>
  The script is orchestration around three outside collaborators: the file system
  (through \<^verbatim>\<open>pathlib\<close> and \<^verbatim>\<open>open\<close>), the Whisper library and the clock. Each is
  modelled explicitly:
  \<^item> A Python \<^verbatim>\<open>str\<close> is a \<open>string\<close> whose characters are the code points below 256;
    \<^verbatim>\<open>str.lower\<close>, \<^verbatim>\<open>str.strip\<close> and \<^verbatim>\<open>str.split\<close> are modelled as CPython computes them
    on that range.
  \<^item> \<^verbatim>\<open>pathlib.Path\<close> is modelled in its POSIX flavour (separator \<^verbatim>\<open>/\<close>), following
    the CPython 3.11 definitions of \<^verbatim>\<open>name\<close>, \<^verbatim>\<open>stem\<close>, \<^verbatim>\<open>suffix\<close>,
    \<^verbatim>\<open>__str__\<close> and \<^verbatim>\<open>glob\<close>. The one flavour-dependent behaviour that matters
    here, whether \<^verbatim>\<open>glob\<close> compares case-sensitively (POSIX) or not (Windows), is a
    field of the environment.
  \<^item> The file system is a map from paths to nodes; a directory node holds the names of
    its entries in the order in which the operating system lists them. Every operation
    on it can fail. Looking a path up fails with \<^verbatim>\<open>ENAMETOOLONG\<close> for a name beyond the
    system's limits; besides, the environment decides which look-ups, directory
    listings, directory creations, openings and writes the system refuses, and with
    which error (permissions, read-only or full device, encoding).
  \<^item> Exceptions are values of type \<open>exn\<close>, standing for instances of Python's
    \<^verbatim>\<open>Exception\<close>; a function that may raise returns \<open>exn + 'a\<close>. Asynchronous
    signals (\<^verbatim>\<open>KeyboardInterrupt\<close>) and failures of \<^verbatim>\<open>print\<close> are outside the model.
\<close>

subsection \<open>Strings\<close>

abbreviation NL :: string where
  "NL \<equiv> [CHR 0x0A]"

text \<open>
  \<^verbatim>\<open>str.lower()\<close> on one character: the letters A to Z and the capital letters of
  Latin-1 (U+00C0 to U+00DE without the multiplication sign U+00D7) move up by 32.
\<close>

definition char_lower :: "char \<Rightarrow> char" where
  "char_lower c =
     (let n = (of_char c :: nat) in
      if (65 \<le> n \<and> n \<le> 90) \<or> (192 \<le> n \<and> n \<le> 222 \<and> n \<noteq> 215) then char_of (n + 32) else c)"

text \<open>\<^verbatim>\<open>str.lower()\<close>\<close>

definition lower :: "string \<Rightarrow> string" where
  "lower s = map char_lower s"

text \<open>
  \<^verbatim>\<open>str.isspace()\<close> on one character: TAB, LF, VT, FF, CR, FS, GS, RS, US, space, and
  in Latin-1 NEL (U+0085) and the no-break space (U+00A0).
\<close>

definition isspace :: "char \<Rightarrow> bool" where
  "isspace c =
     (let n = (of_char c :: nat) in (9 \<le> n \<and> n \<le> 13) \<or> (28 \<le> n \<and> n \<le> 32) \<or> n = 133 \<or> n = 160)"

text \<open>\<^verbatim>\<open>str.strip()\<close>\<close>

definition strip :: "string \<Rightarrow> string" where
  "strip s = rev (dropWhile isspace (rev (dropWhile isspace s)))"

text \<open>\<^verbatim>\<open>len(s.split())\<close>: the number of maximal runs of non-whitespace characters.\<close>

fun count_words :: "bool \<Rightarrow> string \<Rightarrow> nat" where
  "count_words inw [] = 0"
| "count_words inw (c # cs) =
     (if isspace c then count_words False cs
      else (if inw then 0 else 1) + count_words True cs)"

text \<open>\<^verbatim>\<open>s.split(sep)\<close> for a one-character separator.\<close>

fun split_on :: "char \<Rightarrow> string \<Rightarrow> string list" where
  "split_on c [] = [[]]"
| "split_on c (x # xs) =
     (if x = c then [] # split_on c xs
      else (case split_on c xs of [] \<Rightarrow> [[x]] | p # ps \<Rightarrow> (x # p) # ps))"

text \<open>\<^verbatim>\<open>sep.join(xs)\<close>\<close>

fun join :: "string \<Rightarrow> string list \<Rightarrow> string" where
  "join sep [] = []"
| "join sep [x] = x"
| "join sep (x # y # ys) = x @ sep @ join sep (y # ys)"

text \<open>\<^verbatim>\<open>s.rfind(c)\<close>, with \<open>None\<close> for Python's \<^verbatim>\<open>-1\<close>.\<close>

fun rfind :: "char \<Rightarrow> string \<Rightarrow> nat option" where
  "rfind c [] = None"
| "rfind c (x # xs) =
     (case rfind c xs of Some i \<Rightarrow> Some (Suc i) | None \<Rightarrow> if x = c then Some 0 else None)"

text \<open>The decimal numeral that an f-string prints for a non-negative \<^verbatim>\<open>int\<close>.\<close>

definition digit_char :: "nat \<Rightarrow> char" where
  "digit_char d = char_of (48 + d)"

fun dec :: "nat \<Rightarrow> string" where
  "dec n = (if n < 10 then [digit_char n] else dec (n div 10) @ [digit_char (n mod 10)])"

declare dec.simps [simp del]

text \<open>
  \<^verbatim>\<open>fnmatch\<close> for patterns built from literal characters, \<^verbatim>\<open>*\<close> and \<^verbatim>\<open>?\<close>
  (character classes are not needed by this program).
\<close>

fun fnmatch :: "string \<Rightarrow> string \<Rightarrow> bool" where
  "fnmatch [] [] = True"
| "fnmatch [] (c # cs) = False"
| "fnmatch (p # ps) [] = (p = CHR ''*'' \<and> fnmatch ps [])"
| "fnmatch (p # ps) (c # cs) =
     (if p = CHR ''*'' then fnmatch ps (c # cs) \<or> fnmatch (p # ps) cs
      else (p = CHR ''?'' \<or> p = c) \<and> fnmatch ps cs)"

subsection \<open>Paths (\<^verbatim>\<open>pathlib.PurePosixPath\<close>)\<close>

text \<open>
  A parsed path: the root (\<^verbatim>\<open>''\<close>, \<^verbatim>\<open>'/'\<close> or \<^verbatim>\<open>'//'\<close>) and the components after it.
\<close>

datatype path = PurePath (path_root: string) (path_tail: "string list")

text \<open>
  \<^verbatim>\<open>Path(s)\<close>: the root is \<^verbatim>\<open>/\<close> for a leading slash (\<^verbatim>\<open>//\<close> for exactly two); the
  components are the pieces between slashes, without the empty ones and \<^verbatim>\<open>.\<close>.
\<close>

definition Path :: "string \<Rightarrow> path" where
  "Path s =
     PurePath
       (if take 1 s \<noteq> ''/'' then ''''
        else if take 1 (drop 1 s) \<noteq> ''/'' then ''/''
        else if take 1 (drop 2 s) = ''/'' then ''/''
        else ''//'')
       (filter (\<lambda>p. p \<noteq> [] \<and> p \<noteq> ''.'') (split_on CHR ''/'' s))"

text \<open>\<^verbatim>\<open>str(path)\<close>\<close>

definition str_path :: "path \<Rightarrow> string" where
  "str_path p =
     (if path_root p = [] \<and> path_tail p = [] then ''.''
      else path_root p @ join ''/'' (path_tail p))"

text \<open>\<^verbatim>\<open>path / s\<close> for a string \<open>s\<close>: an absolute right operand replaces the left one.\<close>

definition truediv :: "path \<Rightarrow> string \<Rightarrow> path" where
  "truediv p s =
     (let q = Path s in
      if path_root q \<noteq> [] then q else PurePath (path_root p) (path_tail p @ path_tail q))"

text \<open>The child path that \<^verbatim>\<open>glob\<close> builds for a directory entry (no parsing).\<close>

definition make_child :: "path \<Rightarrow> string \<Rightarrow> path" where
  "make_child p n = PurePath (path_root p) (path_tail p @ [n])"

text \<open>\<^verbatim>\<open>path.parent\<close>\<close>

definition parent :: "path \<Rightarrow> path" where
  "parent p = PurePath (path_root p) (butlast (path_tail p))"

text \<open>\<^verbatim>\<open>path.name\<close>\<close>

definition name :: "path \<Rightarrow> string" where
  "name p = (if path_tail p = [] then [] else last (path_tail p))"

text \<open>
  \<^verbatim>\<open>path.suffix\<close> and \<^verbatim>\<open>path.stem\<close>: split the name at its last dot, unless that dot
  is the first or the last character.
\<close>

definition suffix_of_name :: "string \<Rightarrow> string" where
  "suffix_of_name n =
     (case rfind CHR ''.'' n of
        None \<Rightarrow> []
      | Some i \<Rightarrow> if 0 < i \<and> Suc i < length n then drop i n else [])"

definition stem_of_name :: "string \<Rightarrow> string" where
  "stem_of_name n =
     (case rfind CHR ''.'' n of
        None \<Rightarrow> n
      | Some i \<Rightarrow> if 0 < i \<and> Suc i < length n then take i n else n)"

definition suffix :: "path \<Rightarrow> string" where
  "suffix p = suffix_of_name (name p)"

definition stem :: "path \<Rightarrow> string" where
  "stem p = stem_of_name (name p)"

subsection \<open>Exceptions\<close>

datatype exn = Exn (exn_class: string) (exn_msg: string) (exn_cause: "exn option")

text \<open>The message of an \<^verbatim>\<open>OSError\<close>: errno, the system's text, the quoted file name.\<close>

definition os_error :: "string \<Rightarrow> nat \<Rightarrow> string \<Rightarrow> path \<Rightarrow> exn" where
  "os_error cls errno strerror p =
     Exn cls (''[Errno '' @ dec errno @ ''] '' @ strerror @ '': '' @ [CHR 0x27] @ str_path p @ [CHR 0x27])
       None"

text \<open>\<^verbatim>\<open>str(e)\<close> for an exception.\<close>

definition str_exn :: "exn \<Rightarrow> string" where
  "str_exn e = exn_msg e"

subsection \<open>The clock\<close>

record datetime =
  year :: nat
  month :: nat
  day :: nat
  hour :: nat
  minute :: nat
  second :: nat

definition zfill :: "nat \<Rightarrow> string \<Rightarrow> string" where
  "zfill w s = replicate (w - length s) CHR ''0'' @ s"

text \<open>
  \<^verbatim>\<open>dt.strftime('%Y-%m-%d %H:%M:%S')\<close> as the C library of Linux formats it: the year is
  not padded, the other fields are padded to two digits.
\<close>

definition strftime :: "datetime \<Rightarrow> string" where
  "strftime dt =
     dec (year dt) @ ''-'' @ zfill 2 (dec (month dt)) @ ''-'' @ zfill 2 (dec (day dt))
     @ '' '' @ zfill 2 (dec (hour dt)) @ '':'' @ zfill 2 (dec (minute dt)) @ '':''
     @ zfill 2 (dec (second dt))"

subsection \<open>The file system, the environment and the state of a run\<close>

datatype node = File string | Dir "string list"

type_synonym filesystem = "path \<rightharpoonup> node"

text \<open>
  The model handle is opaque: the type variable \<open>'m\<close>. The environment holds what the
  script takes from outside:
  \<^item> the directory of the script and the flavour's case sensitivity for \<^verbatim>\<open>glob\<close>;
  \<^item> \<open>stat_error\<close>: the \<^verbatim>\<open>OSError\<close>, if any, with which the system refuses to look a path
    up for a reason other than its length (permission denied, input/output error);
  \<^item> \<open>scandir_error\<close>, \<open>mkdir_error\<close> and \<open>open_error\<close>: the \<^verbatim>\<open>OSError\<close>, if any, with
    which the system refuses to list a directory, to create a directory, and to open a
    file for writing, when the path itself is in order (permission denied, read-only
    or full device, too many open files);
  \<^item> \<open>write_error\<close>: the exception, if any, that the \<open>k\<close>-th \<^verbatim>\<open>f.write\<close> of the \<^verbatim>\<open>with\<close>
    block (counted from 0; a failing close counts as the last write) raises while the
    artifact of a source file is written: an encoding error, which depends on the
    source's name and text, or a failure of the device;
  \<^item> \<^verbatim>\<open>whisper.load_model\<close> and the \<^verbatim>\<open>transcribe\<close> method of a handle (its result is
    the \<^verbatim>\<open>"text"\<close> field of the dictionary Whisper returns);
  \<^item> the clock, whose \<open>n\<close>-th reading is \<open>clock env n\<close>.
\<close>

record 'm env =
  script_dir :: path
  glob_case_sensitive :: bool
  stat_error :: "path \<Rightarrow> exn option"
  scandir_error :: "path \<Rightarrow> exn option"
  mkdir_error :: "path \<Rightarrow> exn option"
  open_error :: "path \<Rightarrow> exn option"
  write_error :: "string \<Rightarrow> nat \<Rightarrow> exn option"
  load_model :: "string \<Rightarrow> exn + 'm"
  transcribe :: "'m \<Rightarrow> string \<Rightarrow> exn + string"
  clock :: "nat \<Rightarrow> datetime"

datatype 'm event = EvLoad string | EvTranscribe 'm string

text \<open>
  The state: the file system, the arguments of the \<^verbatim>\<open>print\<close> calls so far, the calls
  into Whisper so far, and the number of clock readings so far.
\<close>

record 'm world =
  disk :: filesystem
  stdout :: "string list"
  trace :: "'m event list"
  ticks :: nat

definition print :: "string \<Rightarrow> 'm world \<Rightarrow> 'm world" where
  "print s w = w\<lparr>stdout := stdout w @ [s]\<rparr>"

definition prints :: "string list \<Rightarrow> 'm world \<Rightarrow> 'm world" where
  "prints ls w = foldl (\<lambda>w l. print l w) w ls"

subsection \<open>Operations of the file system\<close>

text \<open>The limits of Linux on one name and on a whole path, in bytes.\<close>

definition NAME_MAX :: nat where
  "NAME_MAX = 255"

definition PATH_MAX :: nat where
  "PATH_MAX = 4096"

text \<open>The number of bytes of a string in UTF-8: two for a code point from 128.\<close>

definition utf8_length :: "string \<Rightarrow> nat" where
  "utf8_length s = length s + length (filter (\<lambda>c. 128 \<le> (of_char c :: nat)) s)"

text \<open>
  The error, if any, with which the system refuses to look a path up: a component
  longer than \<open>NAME_MAX\<close> or a path that does not fit in \<open>PATH_MAX\<close> gives
  \<^verbatim>\<open>ENAMETOOLONG\<close>; otherwise the environment decides.
\<close>

definition stat_failure :: "'m env \<Rightarrow> path \<Rightarrow> exn option" where
  "stat_failure env p =
     (if list_ex (\<lambda>c. NAME_MAX < utf8_length c) (path_tail p) then
        Some (os_error ''OSError'' 36 ''File name too long'' p)
      else if PATH_MAX \<le> utf8_length (str_path p) then
        Some (os_error ''OSError'' 36 ''File name too long'' p)
      else stat_error env p)"

text \<open>\<^verbatim>\<open>os.stat\<close>: the node at a path, \<open>None\<close> when nothing is there, or the error.\<close>

definition stat :: "'m env \<Rightarrow> filesystem \<Rightarrow> path \<Rightarrow> exn + node option" where
  "stat env fs p = (case stat_failure env p of Some e \<Rightarrow> Inl e | None \<Rightarrow> Inr (fs p))"

text \<open>
  \<^verbatim>\<open>path.is_file()\<close> and \<^verbatim>\<open>path.is_dir()\<close>: false when nothing is there; every other
  error of the look-up is raised.
\<close>

definition is_file :: "'m env \<Rightarrow> filesystem \<Rightarrow> path \<Rightarrow> exn + bool" where
  "is_file env fs p =
     (case stat env fs p of
        Inl e \<Rightarrow> Inl e
      | Inr n \<Rightarrow> Inr (case n of Some (File _) \<Rightarrow> True | _ \<Rightarrow> False))"

definition is_dir :: "'m env \<Rightarrow> filesystem \<Rightarrow> path \<Rightarrow> exn + bool" where
  "is_dir env fs p =
     (case stat env fs p of
        Inl e \<Rightarrow> Inl e
      | Inr n \<Rightarrow> Inr (case n of Some (Dir _) \<Rightarrow> True | _ \<Rightarrow> False))"

text \<open>The entry names of a directory, in the order in which \<^verbatim>\<open>os.scandir\<close> yields them.\<close>

definition scandir :: "filesystem \<Rightarrow> path \<Rightarrow> string list" where
  "scandir fs p = (case fs p of Some (Dir es) \<Rightarrow> es | _ \<Rightarrow> [])"

text \<open>
  \<^verbatim>\<open>list(path.glob(pat))\<close> for a pattern of one component, on a path that \<^verbatim>\<open>is_dir\<close> has
  just found to be a directory: every entry of the directory (hidden ones too, files and
  directories alike) whose name matches, in scanning order. Under a case-insensitive
  flavour pattern and name are compared case-folded. When the system refuses to list
  the directory, a \<^verbatim>\<open>PermissionError\<close> ends the iteration silently and any other error is
  raised.
\<close>

definition glob :: "'m env \<Rightarrow> filesystem \<Rightarrow> path \<Rightarrow> string \<Rightarrow> exn + path list" where
  "glob env fs p pat =
     (case scandir_error env p of
        Some e \<Rightarrow> if exn_class e = ''PermissionError'' then Inr [] else Inl e
      | None \<Rightarrow>
          Inr (map (make_child p)
                 (filter (\<lambda>n. if glob_case_sensitive env then fnmatch pat n
                               else fnmatch (lower pat) (lower n))
                    (scandir fs p))))"

text \<open>
  \<^verbatim>\<open>path.mkdir(exist_ok=True)\<close>: an existing directory is left alone, whatever
  \<^verbatim>\<open>os.mkdir\<close> answered; an existing file, a missing parent, a failing look-up or a
  refusal of the system raises.
\<close>

definition mkdir_exist_ok :: "'m env \<Rightarrow> filesystem \<Rightarrow> path \<Rightarrow> exn + filesystem" where
  "mkdir_exist_ok env fs p =
     (case stat env fs p of
        Inl e \<Rightarrow> Inl e
      | Inr (Some (Dir es)) \<Rightarrow> Inr fs
      | Inr (Some (File c)) \<Rightarrow> Inl (os_error ''FileExistsError'' 17 ''File exists'' p)
      | Inr None \<Rightarrow>
          (case fs (parent p) of
             Some (Dir es) \<Rightarrow>
               (case mkdir_error env p of
                  Some e \<Rightarrow> Inl e
                | None \<Rightarrow> Inr (fs(parent p \<mapsto> Dir (es @ [name p]), p \<mapsto> Dir [])))
           | Some (File c) \<Rightarrow> Inl (os_error ''NotADirectoryError'' 20 ''Not a directory'' p)
           | None \<Rightarrow> Inl (os_error ''FileNotFoundError'' 2 ''No such file or directory'' p)))"

text \<open>
  \<^verbatim>\<open>open(path, "w")\<close>: the file is created, or truncated when it exists. Opening raises
  when the look-up fails, when the path is a directory, when its parent is not one, or
  when the system refuses.
\<close>

definition open_write :: "'m env \<Rightarrow> filesystem \<Rightarrow> path \<Rightarrow> exn + filesystem" where
  "open_write env fs p =
     (case stat env fs p of
        Inl e \<Rightarrow> Inl e
      | Inr (Some (Dir es)) \<Rightarrow> Inl (os_error ''IsADirectoryError'' 21 ''Is a directory'' p)
      | Inr n \<Rightarrow>
          (case fs (parent p) of
             Some (Dir es) \<Rightarrow>
               (case open_error env p of
                  Some e \<Rightarrow> Inl e
                | None \<Rightarrow>
                    Inr (fs(parent p \<mapsto> Dir (if name p \<in> set es then es else es @ [name p]),
                            p \<mapsto> File [])))
           | Some (File c) \<Rightarrow> Inl (os_error ''NotADirectoryError'' 20 ''Not a directory'' p)
           | None \<Rightarrow> Inl (os_error ''FileNotFoundError'' 2 ''No such file or directory'' p)))"

text \<open>The data of a write reaches the file opened at \<open>p\<close>: it is appended to its content.\<close>

definition append_to :: "path \<Rightarrow> string \<Rightarrow> filesystem \<Rightarrow> filesystem" where
  "append_to p s fs = (case fs p of Some (File c) \<Rightarrow> fs(p \<mapsto> File (c @ s)) | _ \<Rightarrow> fs)"

text \<open>
  \<^verbatim>\<open>f.write(s)\<close>, the \<open>k\<close>-th write for the artifact of the source \<open>src\<close>, on the file
  opened at \<open>p\<close>: it raises what the environment decides, or appends.
\<close>

definition file_write ::
  "'m env \<Rightarrow> string \<Rightarrow> nat \<Rightarrow> path \<Rightarrow> string \<Rightarrow> filesystem \<Rightarrow> exn + filesystem" where
  "file_write env src k p s fs =
     (case write_error env src k of Some e \<Rightarrow> Inl e | None \<Rightarrow> Inr (append_to p s fs))"

subsection \<open>Configuration\<close>

definition MODEL_SIZE :: string where
  "MODEL_SIZE = ''base''"

definition INPUT_FOLDER :: "'m env \<Rightarrow> path" where
  "INPUT_FOLDER env = truediv (script_dir env) ''input''"

definition OUTPUT_FOLDER :: "'m env \<Rightarrow> path" where
  "OUTPUT_FOLDER env = truediv (script_dir env) ''output''"

subsection \<open>\<^verbatim>\<open>ensure_folders_exist\<close>\<close>

definition ensure_folders_exist :: "'m env \<Rightarrow> 'm world \<Rightarrow> (exn + unit) \<times> 'm world" where
  "ensure_folders_exist env w =
     (case mkdir_exist_ok env (disk w) (INPUT_FOLDER env) of
        Inl e \<Rightarrow> (Inl e, w)
      | Inr fs1 \<Rightarrow>
          (case mkdir_exist_ok env fs1 (OUTPUT_FOLDER env) of
             Inl e \<Rightarrow> (Inl e, w\<lparr>disk := fs1\<rparr>)
           | Inr fs2 \<Rightarrow> (Inr (), w\<lparr>disk := fs2\<rparr>)))"

subsection \<open>\<^verbatim>\<open>get_mp3_files\<close>\<close>

text \<open>
  The conjunction on line 55 looks the path up first, and \<^verbatim>\<open>is_dir\<close> is reached only when
  that test is false; an error of either look-up, or of a directory listing, leaves the
  function.
\<close>

definition get_mp3_files :: "'m env \<Rightarrow> filesystem \<Rightarrow> string option \<Rightarrow> exn + string list" where
  "get_mp3_files env fs arg =
     (let path = (case arg of None \<Rightarrow> INPUT_FOLDER env | Some s \<Rightarrow> Path s) in
      case is_file env fs path of
        Inl e \<Rightarrow> Inl e
      | Inr file \<Rightarrow>
          if file \<and> lower (suffix path) = ''.mp3'' then Inr [str_path path]
          else
            (case is_dir env fs path of
               Inl e \<Rightarrow> Inl e
             | Inr dir \<Rightarrow>
                 if dir then
                   (case glob env fs path ''*.mp3'' of
                      Inl e \<Rightarrow> Inl e
                    | Inr lower_case \<Rightarrow>
                        (case glob env fs path ''*.MP3'' of
                           Inl e \<Rightarrow> Inl e
                         | Inr upper_case \<Rightarrow>
                             (let mp3_files = lower_case @ upper_case;
                                  mp3_files = sort_key (\<lambda>x. lower (name x)) mp3_files
                              in Inr (map str_path mp3_files))))
                 else Inr []))"

subsection \<open>\<^verbatim>\<open>transcribe_file\<close>\<close>

text \<open>
  The body of the \<^verbatim>\<open>with\<close> block, lines 89 to 93: five writes in order, the clock being
  read for the argument of the second. When a write raises, the block is left, the file
  is closed and keeps the writes before it.
\<close>

definition write_artifact ::
  "'m env \<Rightarrow> string \<Rightarrow> path \<Rightarrow> string \<Rightarrow> string \<Rightarrow> 'm world \<Rightarrow> (exn + unit) \<times> 'm world" where
  "write_artifact env src output_path audio_name text w =
     (case file_write env src 0 output_path (''Transcription of: '' @ audio_name @ NL) (disk w) of
        Inl e \<Rightarrow> (Inl e, w)
      | Inr fs1 \<Rightarrow>
          (let now = clock env (ticks w);
               w1 = w\<lparr>disk := fs1, ticks := Suc (ticks w)\<rparr>
           in case file_write env src 1 output_path (''Generated on: '' @ strftime now @ NL) fs1 of
                Inl e \<Rightarrow> (Inl e, w1)
              | Inr fs2 \<Rightarrow>
                  (case file_write env src 2 output_path (''Model used: whisper-'' @ MODEL_SIZE @ NL) fs2 of
                     Inl e \<Rightarrow> (Inl e, w1\<lparr>disk := fs2\<rparr>)
                   | Inr fs3 \<Rightarrow>
                       (case file_write env src 3 output_path (replicate 60 CHR ''='' @ NL @ NL) fs3 of
                          Inl e \<Rightarrow> (Inl e, w1\<lparr>disk := fs3\<rparr>)
                        | Inr fs4 \<Rightarrow>
                            (case file_write env src 4 output_path text fs4 of
                               Inl e \<Rightarrow> (Inl e, w1\<lparr>disk := fs4\<rparr>)
                             | Inr fs5 \<Rightarrow> (Inr (), w1\<lparr>disk := fs5\<rparr>))))))"

definition transcribe_file ::
  "'m env \<Rightarrow> 'm \<Rightarrow> string \<Rightarrow> path option \<Rightarrow> 'm world \<Rightarrow> (exn + string) \<times> 'm world" where
  "transcribe_file env model audio_path_str output_dir_arg w =
     (let audio_path = Path audio_path_str;
          output_dir = (case output_dir_arg of None \<Rightarrow> OUTPUT_FOLDER env | Some d \<Rightarrow> d);
          output_path = truediv output_dir (stem audio_path @ ''.txt'');
          w1 = prints [NL @ replicate 60 CHR ''='',
                       ''Transcribing: '' @ name audio_path,
                       replicate 60 CHR ''=''] w;
          w2 = w1\<lparr>trace := trace w1 @ [EvTranscribe model (str_path audio_path)]\<rparr>
      in case transcribe env model (str_path audio_path) of
           Inl e \<Rightarrow> (Inl e, w2)
         | Inr raw \<Rightarrow>
             (let text = strip raw in
              case open_write env (disk w2) output_path of
                Inl e \<Rightarrow> (Inl e, w2)
              | Inr fs1 \<Rightarrow>
                  (case write_artifact env audio_path_str output_path (name audio_path) text
                          (w2\<lparr>disk := fs1\<rparr>) of
                     (Inl e, w3) \<Rightarrow> (Inl e, w3)
                   | (Inr u, w3) \<Rightarrow>
                       (Inr (str_path output_path),
                        prints [''[OK] Saved transcription to: '' @ str_path output_path,
                                ''     Word count: ~'' @ dec (count_words False text) @ '' words'']
                          w3))))"

subsection \<open>\<^verbatim>\<open>main\<close>\<close>

datatype outcome = Returned | SysExit int | Uncaught exn

text \<open>
  The exit status of the process: 0 after a normal return, the argument of
  \<^verbatim>\<open>sys.exit\<close>, and 1 after an exception that nothing caught.
\<close>

fun exit_status :: "outcome \<Rightarrow> int" where
  "exit_status Returned = 0"
| "exit_status (SysExit n) = n"
| "exit_status (Uncaught e) = 1"

text \<open>\<^verbatim>\<open>for i, f in enumerate(mp3_files, 1): print(...)\<close>\<close>

fun print_found :: "nat \<Rightarrow> string list \<Rightarrow> 'm world \<Rightarrow> 'm world" where
  "print_found i [] w = w"
| "print_found i (f # rest) w =
     print_found (Suc i) rest (print (''   '' @ dec i @ ''. '' @ name (Path f)) w)"

text \<open>The batch loop, lines 155 to 162: \<open>idx\<close> counts from 1.\<close>

fun batch_loop ::
  "'m env \<Rightarrow> 'm \<Rightarrow> nat \<Rightarrow> nat \<Rightarrow> string list \<Rightarrow> string list \<Rightarrow> 'm world \<Rightarrow> string list \<times> 'm world"
where
  "batch_loop env model total_files idx [] output_files w = (output_files, w)"
| "batch_loop env model total_files idx (mp3_file # rest) output_files w =
     (let w1 = print (NL @ ''['' @ dec idx @ ''/'' @ dec total_files @ ''] Processing...'') w in
      case transcribe_file env model mp3_file (Some (OUTPUT_FOLDER env)) w1 of
        (Inr output_path, w2) \<Rightarrow>
          batch_loop env model total_files (Suc idx) rest (output_files @ [output_path]) w2
      | (Inl e, w2) \<Rightarrow>
          batch_loop env model total_files (Suc idx) rest output_files
            (print (NL @ ''[ERROR] Error transcribing '' @ mp3_file @ '': '' @ str_exn e) w2))"

text \<open>\<^verbatim>\<open>for f in output_files: print(...)\<close>\<close>

fun print_generated :: "string list \<Rightarrow> 'm world \<Rightarrow> 'm world" where
  "print_generated [] w = w"
| "print_generated (f # rest) w = print_generated rest (print (''  - '' @ name (Path f)) w)"

text \<open>The lines printed before \<^verbatim>\<open>sys.exit(1)\<close>, lines 124 to 135.\<close>

definition usage_lines :: "'m env \<Rightarrow> string \<Rightarrow> string list" where
  "usage_lines env source =
     [NL @ ''[!] No MP3 files found in: '' @ source,
      NL @ replicate 60 CHR ''-'',
      ''HOW TO USE:'',
      replicate 60 CHR ''-'',
      NL @ ''1. Put your MP3 files in the 'input' folder:'',
      ''   '' @ str_path (INPUT_FOLDER env),
      NL @ ''2. Run: python transcribe.py'',
      NL @ ''3. Find transcriptions in the 'output' folder:'',
      ''   '' @ str_path (OUTPUT_FOLDER env),
      NL @ ''OR specify a file/folder directly:'',
      ''   python transcribe.py episode.mp3'',
      ''   python transcribe.py C:'' @ [CHR 0x5C] @ ''Podcasts'' @ [CHR 0x5C] @ ''MyShow'']"

text \<open>The summary, lines 165 to 170, for \<open>k\<close> output files out of \<open>n\<close> inputs.\<close>

definition summary_lines :: "'m env \<Rightarrow> nat \<Rightarrow> nat \<Rightarrow> string list" where
  "summary_lines env k n =
     [NL @ replicate 60 CHR ''='',
      ''  BATCH TRANSCRIPTION COMPLETE!'',
      replicate 60 CHR ''='',
      NL @ ''[OK] Successfully transcribed '' @ dec k @ '' of '' @ dec n @ '' files'',
      NL @ ''Output folder: '' @ str_path (OUTPUT_FOLDER env),
      NL @ ''Generated files:'']"

text \<open>The first command-line argument, if any (lines 111 to 117).\<close>

definition input_path_of :: "string list \<Rightarrow> string option" where
  "input_path_of argv = (if length argv > 1 then Some (argv ! 1) else None)"

text \<open>The banner, lines 102 to 105.\<close>

definition banner_lines :: "string list" where
  "banner_lines =
     [NL @ replicate 60 CHR ''='',
      ''  PODCAST TRANSCRIBER - Using Whisper (Free & Local)'',
      ''  BATCH MODE: Processes all MP3 files automatically'',
      replicate 60 CHR ''='']"

text \<open>
  Neither the folder creation (line 108), nor the search for files (line 120), nor the
  model load (line 148) is inside a \<^verbatim>\<open>try\<close>: what they raise ends the run.
\<close>

definition main :: "'m env \<Rightarrow> string list \<Rightarrow> 'm world \<Rightarrow> outcome \<times> 'm world" where
  "main env argv w0 =
     (let w1 = prints banner_lines w0
      in case ensure_folders_exist env w1 of
           (Inl e, w2) \<Rightarrow> (Uncaught e, w2)
         | (Inr u, w2) \<Rightarrow>
             (let input_path = input_path_of argv;
                  custom_path = (length argv > 1)
              in case get_mp3_files env (disk w2) input_path of
                   Inl e \<Rightarrow> (Uncaught e, w2)
                 | Inr mp3_files \<Rightarrow>
                     if mp3_files = [] then
                       (let source = (case input_path of
                                        None \<Rightarrow> str_path (INPUT_FOLDER env)
                                      | Some s \<Rightarrow> if s \<noteq> [] then s else str_path (INPUT_FOLDER env))
                        in (SysExit 1, prints (usage_lines env source) w2))
                     else
                       (let w3 = prints
                                   [NL @ ''> Input folder:  ''
                                      @ (if \<not> custom_path then str_path (INPUT_FOLDER env)
                                         else (case input_path of None \<Rightarrow> ''None'' | Some s \<Rightarrow> s)),
                                    ''> Output folder: '' @ str_path (OUTPUT_FOLDER env),
                                    NL @ ''Found '' @ dec (length mp3_files)
                                      @ '' MP3 file(s) to transcribe:'']
                                   w2;
                            w4 = print_found 1 mp3_files w3;
                            w5 = prints
                                   [NL @ ''Loading Whisper '' @ [CHR 0x27] @ MODEL_SIZE @ [CHR 0x27]
                                      @ '' model...'',
                                    ''(First run will download the model - this may take a few minutes)'']
                                   w4;
                            w6 = w5\<lparr>trace := trace w5 @ [EvLoad MODEL_SIZE]\<rparr>
                        in case load_model env MODEL_SIZE of
                             Inl e \<Rightarrow> (Uncaught e, w6)
                           | Inr model \<Rightarrow>
                               (let w7 = print ''[OK] Model loaded successfully!'' w6;
                                    total_files = length mp3_files;
                                    (output_files, w8) = batch_loop env model total_files 1 mp3_files [] w7;
                                    w9 = prints (summary_lines env (length output_files) (length mp3_files))
                                           w8
                                in (Returned, print_generated output_files w9)))))"

subsection \<open>Vocabulary of the statements\<close>

text \<open>What a file system holds at a path.\<close>

definition file_at :: "filesystem \<Rightarrow> path \<Rightarrow> bool" where
  "file_at fs p = (case fs p of Some (File c) \<Rightarrow> True | _ \<Rightarrow> False)"

definition dir_at :: "filesystem \<Rightarrow> path \<Rightarrow> bool" where
  "dir_at fs p = (case fs p of Some (Dir es) \<Rightarrow> True | _ \<Rightarrow> False)"

text \<open>
  The layout of an artifact in the words of the specification: the source file's name,
  the timestamp, the model identifier, a separator of 60 \<^verbatim>\<open>=\<close>, a blank line, the text.
\<close>

definition spec_artifact_layout :: "string \<Rightarrow> datetime \<Rightarrow> string \<Rightarrow> string" where
  "spec_artifact_layout audio_name now text =
     ''Transcription of: '' @ audio_name @ NL
     @ ''Generated on: '' @ strftime now @ NL
     @ ''Model used: whisper-base'' @ NL
     @ replicate 60 CHR ''='' @ NL
     @ NL
     @ text"

text \<open>The data of the five writes of lines 89 to 93.\<close>

definition artifact_pieces :: "string \<Rightarrow> datetime \<Rightarrow> string \<Rightarrow> string list" where
  "artifact_pieces audio_name now text =
     [''Transcription of: '' @ audio_name @ NL,
      ''Generated on: '' @ strftime now @ NL,
      ''Model used: whisper-'' @ MODEL_SIZE @ NL,
      replicate 60 CHR ''='' @ NL @ NL,
      text]"

text \<open>The first of the five writes that raises for a source, with what it raises.\<close>

definition first_write_error :: "'m env \<Rightarrow> string \<Rightarrow> (nat \<times> exn) option" where
  "first_write_error env src =
     (case write_error env src 0 of Some e \<Rightarrow> Some (0, e) | None \<Rightarrow>
      case write_error env src 1 of Some e \<Rightarrow> Some (1, e) | None \<Rightarrow>
      case write_error env src 2 of Some e \<Rightarrow> Some (2, e) | None \<Rightarrow>
      case write_error env src 3 of Some e \<Rightarrow> Some (3, e) | None \<Rightarrow>
      case write_error env src 4 of Some e \<Rightarrow> Some (4, e) | None \<Rightarrow> None)"

text \<open>The number of writes that reach the file for a source: all five, or those before the first that raises.\<close>

definition writes_done :: "'m env \<Rightarrow> string \<Rightarrow> nat" where
  "writes_done env src = (case first_write_error env src of None \<Rightarrow> 5 | Some (k, e) \<Rightarrow> k)"

text \<open>
  A string has the shape of a format when it has a decimal digit wherever the format has
  \<^verbatim>\<open>d\<close> and the format's own character elsewhere.
\<close>

definition is_digit :: "char \<Rightarrow> bool" where
  "is_digit c = (let n = (of_char c :: nat) in 48 \<le> n \<and> n \<le> 57)"

fun matches_fmt :: "string \<Rightarrow> string \<Rightarrow> bool" where
  "matches_fmt [] [] = True"
| "matches_fmt (f # fs) (c # cs) = ((if f = CHR ''d'' then is_digit c else c = f) \<and> matches_fmt fs cs)"
| "matches_fmt _ _ = False"

definition is_timestamp :: "string \<Rightarrow> bool" where
  "is_timestamp s = matches_fmt ''dddd-dd-dd dd:dd:dd'' s"

text \<open>The ranges of the fields of a Python \<^verbatim>\<open>datetime\<close>.\<close>

definition valid_datetime :: "datetime \<Rightarrow> bool" where
  "valid_datetime dt =
     (1 \<le> year dt \<and> year dt \<le> 9999 \<and> 1 \<le> month dt \<and> month dt \<le> 12 \<and> 1 \<le> day dt \<and> day dt \<le> 31
      \<and> hour dt < 24 \<and> minute dt < 60 \<and> second dt < 60)"

text \<open>The artifact path that \<^verbatim>\<open>main\<close> makes \<^verbatim>\<open>transcribe_file\<close> use for an input file.\<close>

definition output_path_of :: "'m env \<Rightarrow> string \<Rightarrow> path" where
  "output_path_of env f = truediv (OUTPUT_FOLDER env) (stem (Path f) @ ''.txt'')"

text \<open>
  What the call of \<^verbatim>\<open>transcribe_file\<close> in the batch loop returns or raises for an input
  file on a given file system.
\<close>

definition attempt :: "'m env \<Rightarrow> 'm \<Rightarrow> filesystem \<Rightarrow> string \<Rightarrow> exn + string" where
  "attempt env model fs f =
     fst (transcribe_file env model f (Some (OUTPUT_FOLDER env))
            \<lparr>disk = fs, stdout = [], trace = [], ticks = 0\<rparr>)"

definition succeeds :: "'m env \<Rightarrow> 'm \<Rightarrow> filesystem \<Rightarrow> string \<Rightarrow> bool" where
  "succeeds env model fs f = (\<not> isl (attempt env model fs f))"

text \<open>
  The processing of an input file opens its artifact (and so creates or truncates it)
  when the model returns and \<^verbatim>\<open>open\<close> does not raise; it reads the clock when moreover
  the first write does not raise.
\<close>

definition opens :: "'m env \<Rightarrow> 'm \<Rightarrow> filesystem \<Rightarrow> string \<Rightarrow> bool" where
  "opens env model fs f =
     (case transcribe env model (str_path (Path f)) of
        Inl e \<Rightarrow> False
      | Inr raw \<Rightarrow> \<not> isl (open_write env fs (output_path_of env f)))"

definition reads_clock :: "'m env \<Rightarrow> 'm \<Rightarrow> filesystem \<Rightarrow> string \<Rightarrow> bool" where
  "reads_clock env model fs f = (opens env model fs f \<and> write_error env f 0 = None)"

text \<open>The trimmed text that the model yields for an input file (empty when the model raises).\<close>

definition transcript_of :: "'m env \<Rightarrow> 'm \<Rightarrow> string \<Rightarrow> string" where
  "transcript_of env model f =
     (case transcribe env model (str_path (Path f)) of Inl e \<Rightarrow> [] | Inr raw \<Rightarrow> strip raw)"

text \<open>
  What the artifact of an input file holds once its processing has opened it, the clock
  reading being \<open>now\<close>: the writes that reached it.
\<close>

definition written :: "'m env \<Rightarrow> 'm \<Rightarrow> string \<Rightarrow> datetime \<Rightarrow> string" where
  "written env model f now =
     concat (take (writes_done env f) (artifact_pieces (name (Path f)) now (transcript_of env model f)))"

text \<open>
  The state of \<^verbatim>\<open>transcribe_file\<close> after line 82: the three header lines are printed and
  the model has been called.
\<close>

definition tf_called :: "'m \<Rightarrow> string \<Rightarrow> 'm world \<Rightarrow> 'm world" where
  "tf_called model a w =
     (prints [NL @ replicate 60 CHR ''='', ''Transcribing: '' @ name (Path a), replicate 60 CHR ''=''] w)
       \<lparr>trace := trace w @ [EvTranscribe model (str_path (Path a))]\<rparr>"

text \<open>The state of \<^verbatim>\<open>main\<close> when the batch loop starts (after line 149).\<close>

definition loop_entry :: "'m env \<Rightarrow> string list \<Rightarrow> string list \<Rightarrow> 'm world \<Rightarrow> 'm world" where
  "loop_entry env argv mp3_files w2 =
     print ''[OK] Model loaded successfully!''
       ((prints [NL @ ''Loading Whisper '' @ [CHR 0x27] @ MODEL_SIZE @ [CHR 0x27] @ '' model...'',
                 ''(First run will download the model - this may take a few minutes)'']
          (print_found 1 mp3_files
             (prints [NL @ ''> Input folder:  ''
                        @ (if \<not> length argv > 1 then str_path (INPUT_FOLDER env)
                           else (case input_path_of argv of None \<Rightarrow> ''None'' | Some s \<Rightarrow> s)),
                      ''> Output folder: '' @ str_path (OUTPUT_FOLDER env),
                      NL @ ''Found '' @ dec (length mp3_files) @ '' MP3 file(s) to transcribe:'']
                w2)))
        \<lparr>trace := trace w2 @ [EvLoad MODEL_SIZE]\<rparr>)"

text \<open>
  The error of the specification's section 4.2 in its words: an exception of class
  \<^verbatim>\<open>TranscriptionError\<close> whose cause is the exception the model raised.
\<close>

definition is_TranscriptionError_of :: "exn \<Rightarrow> exn \<Rightarrow> bool" where
  "is_TranscriptionError_of e cause = (exn_class e = ''TranscriptionError'' \<and> exn_cause e = Some cause)"

subsection \<open>Example runs\<close>

text \<open>
  A concrete environment for the examples: the script lives in \<^verbatim>\<open>/app\<close>, the model handle is
  the number 7, every handle fails on \<^verbatim>\<open>/app/input/b.mp3\<close>, handle 7 answers every other file
  with the same padded text and any other handle with another text, the last write for
  \<^verbatim>\<open>/app/input/d.mp3\<close> finds the device full, the system refuses nothing else but the
  look-up of a name that is too long, and the clock's \<open>n\<close>-th reading is 2024-05-07 09:03 and \<open>n\<close> seconds.
\<close>

definition demo_env :: "bool \<Rightarrow> nat env" where
  "demo_env cs =
     \<lparr>script_dir = Path ''/app'', glob_case_sensitive = cs,
      stat_error = (\<lambda>p. None), scandir_error = (\<lambda>p. None), mkdir_error = (\<lambda>p. None),
      open_error = (\<lambda>p. None),
      write_error = (\<lambda>src k. if src = ''/app/input/d.mp3'' \<and> k = 4
                              then Some (Exn ''OSError'' ''[Errno 28] No space left on device'' None)
                              else None),
      load_model = (\<lambda>size. if size = ''base'' then Inr 7
                            else Inl (Exn ''RuntimeError'' ''unknown model'' None)),
      transcribe = (\<lambda>m p. if p = ''/app/input/b.mp3'' then Inl (Exn ''RuntimeError'' ''corrupt audio'' None)
                           else if m = 7 then Inr ('' hello world '' @ NL)
                           else Inr ''second take''),
      clock = (\<lambda>n. \<lparr>year = 2024, month = 5, day = 7, hour = 9, minute = 3, second = n\<rparr>)\<rparr>"


definition demo_world :: "filesystem \<Rightarrow> nat world" where
  "demo_world fs = \<lparr>disk = fs, stdout = [], trace = [], ticks = 0\<rparr>"

text \<open>A disk with three audio files and one other file in the input folder.\<close>

definition demo_disk :: filesystem where
  "demo_disk = [Path ''/app'' \<mapsto> Dir [''input''],
                Path ''/app/input'' \<mapsto> Dir [''c.mp3'', ''b.mp3'', ''a.mp3'', ''notes.txt'']]"


section \<open>Basic facts\<close>

lemma disk_print [simp]: "disk (print s w) = disk w"
  and trace_print [simp]: "trace (print s w) = trace w"
  and ticks_print [simp]: "ticks (print s w) = ticks w"
  and stdout_print [simp]: "stdout (print s w) = stdout w @ [s]"
  by (simp_all add: print_def)

lemma prints_Nil [simp]: "prints [] w = w"
  by (simp add: prints_def)

lemma prints_Cons [simp]: "prints (l # ls) w = prints ls (print l w)"
  by (simp add: prints_def)

lemma disk_prints [simp]: "disk (prints ls w) = disk w"
  by (induction ls arbitrary: w) simp_all

lemma trace_prints [simp]: "trace (prints ls w) = trace w"
  by (induction ls arbitrary: w) simp_all

lemma ticks_prints [simp]: "ticks (prints ls w) = ticks w"
  by (induction ls arbitrary: w) simp_all

lemma stdout_prints [simp]: "stdout (prints ls w) = stdout w @ ls"
  by (induction ls arbitrary: w) simp_all

lemma split_on_no_sep: "c \<notin> set s \<Longrightarrow> split_on c s = [s]"
  by (induction s) auto

lemma split_on_parts: "p \<in> set (split_on c s) \<Longrightarrow> c \<notin> set p"
  by (induction s arbitrary: p) (auto split: if_splits list.splits)

lemma Path_simple:
  "CHR ''/'' \<notin> set n \<Longrightarrow> n \<noteq> [] \<Longrightarrow> n \<noteq> ''.'' \<Longrightarrow> Path n = PurePath [] [n]"
  by (cases n) (auto simp: Path_def split_on_no_sep)

lemma truediv_simple:
  "CHR ''/'' \<notin> set n \<Longrightarrow> n \<noteq> [] \<Longrightarrow> n \<noteq> ''.'' \<Longrightarrow> truediv p n = make_child p n"
  by (simp add: truediv_def Path_simple make_child_def)

lemma parent_make_child [simp]: "parent (make_child p n) = p"
  by (simp add: parent_def make_child_def)

lemma name_make_child [simp]: "name (make_child p n) = n"
  by (simp add: name_def make_child_def)

lemma make_child_neq [simp]: "make_child p n \<noteq> p"
  by (cases p) (simp add: make_child_def)

lemma make_child_inject [simp]: "make_child p n = make_child p m \<longleftrightarrow> n = m"
  by (simp add: make_child_def)

lemma name_Path_no_sep: "CHR ''/'' \<notin> set (name (Path s))"
proof (cases "path_tail (Path s)")
  case Nil
  then show ?thesis by (simp add: name_def)
next
  case (Cons a as)
  then have "last (path_tail (Path s)) \<in> set (path_tail (Path s))" by simp
  then have "last (path_tail (Path s)) \<in> set (split_on CHR ''/'' s)"
    by (simp add: Path_def)
  with Cons show ?thesis
    by (auto simp: name_def dest: split_on_parts)
qed

lemma set_stem_of_name: "set (stem_of_name n) \<subseteq> set n"
  by (auto simp: stem_of_name_def split: option.splits dest: in_set_takeD)

lemma stem_Path_no_sep: "CHR ''/'' \<notin> set (stem (Path s))"
  using name_Path_no_sep [of s] set_stem_of_name [of "name (Path s)"]
  by (auto simp: stem_def)

lemma output_path_child:
  "truediv d (stem (Path a) @ ''.txt'') = make_child d (stem (Path a) @ ''.txt'')"
  by (rule truediv_simple) (use stem_Path_no_sep [of a] in auto)

lemma INPUT_FOLDER_child: "INPUT_FOLDER env = make_child (script_dir env) ''input''"
  by (simp add: INPUT_FOLDER_def truediv_simple)

lemma OUTPUT_FOLDER_child: "OUTPUT_FOLDER env = make_child (script_dir env) ''output''"
  by (simp add: OUTPUT_FOLDER_def truediv_simple)

lemma output_path_of_child:
  "output_path_of env f = make_child (OUTPUT_FOLDER env) (stem (Path f) @ ''.txt'')"
  by (simp add: output_path_of_def output_path_child)

lemma output_path_not_folder [simp]: "output_path_of env f \<noteq> OUTPUT_FOLDER env"
  by (simp add: output_path_of_child)

lemma output_path_of_eq_iff:
  "output_path_of env g = output_path_of env f \<longleftrightarrow> stem (Path g) = stem (Path f)"
  by (simp add: output_path_of_child)

subsection \<open>Look-ups\<close>

lemma file_at_iff: "file_at fs p \<longleftrightarrow> (\<exists>c. fs p = Some (File c))"
  by (auto simp: file_at_def split: option.splits node.splits)

lemma dir_at_iff: "dir_at fs p \<longleftrightarrow> (\<exists>es. fs p = Some (Dir es))"
  by (auto simp: dir_at_def split: option.splits node.splits)

lemma file_at_not_dir: "dir_at fs p \<Longrightarrow> \<not> file_at fs p"
  by (auto simp: file_at_iff dir_at_iff)

lemma is_file_cases:
  "is_file env fs p = (case stat_failure env p of Some e \<Rightarrow> Inl e | None \<Rightarrow> Inr (file_at fs p))"
  by (simp add: is_file_def stat_def file_at_def split: option.splits node.splits)

lemma is_dir_cases:
  "is_dir env fs p = (case stat_failure env p of Some e \<Rightarrow> Inl e | None \<Rightarrow> Inr (dir_at fs p))"
  by (simp add: is_dir_def stat_def dir_at_def split: option.splits node.splits)

lemma is_file_Inr_iff: "is_file env fs p = Inr b \<longleftrightarrow> stat_failure env p = None \<and> b = file_at fs p"
  by (auto simp: is_file_cases split: option.splits)

lemma is_dir_Inr_iff: "is_dir env fs p = Inr b \<longleftrightarrow> stat_failure env p = None \<and> b = dir_at fs p"
  by (auto simp: is_dir_cases split: option.splits)

subsection \<open>Opening and writing\<close>

lemma open_write_in_dir:
  assumes "dir_at fs (parent p)"
  shows "open_write env fs p =
     (case stat_failure env p of
        Some e \<Rightarrow> Inl e
      | None \<Rightarrow>
          if dir_at fs p then Inl (os_error ''IsADirectoryError'' 21 ''Is a directory'' p)
          else (case open_error env p of
                  Some e \<Rightarrow> Inl e
                | None \<Rightarrow>
                    Inr (fs(parent p \<mapsto> Dir (if name p \<in> set (scandir fs (parent p)) then scandir fs (parent p)
                                                 else scandir fs (parent p) @ [name p]),
                            p \<mapsto> File []))))"
  using assms
  by (auto simp: open_write_def stat_def dir_at_iff scandir_def split: option.splits node.splits)

lemma open_write_Inr_iff:
  "open_write env fs p = Inr fs' \<longleftrightarrow>
     stat_failure env p = None \<and> open_error env p = None \<and> \<not> dir_at fs p \<and> dir_at fs (parent p) \<and>
     fs' = fs(parent p \<mapsto> Dir (if name p \<in> set (scandir fs (parent p)) then scandir fs (parent p)
                                else scandir fs (parent p) @ [name p]),
              p \<mapsto> File [])"
  by (auto simp: open_write_def stat_def dir_at_def scandir_def split: option.splits node.splits)

lemma open_write_at: "open_write env fs p = Inr fs' \<Longrightarrow> fs' p = Some (File [])"
  by (simp add: open_write_Inr_iff)

lemma append_to_File: "fs p = Some (File c) \<Longrightarrow> append_to p s fs = fs(p \<mapsto> File (c @ s))"
  by (simp add: append_to_def)

lemma first_write_error_None_iff:
  "first_write_error env src = None \<longleftrightarrow>
     write_error env src 0 = None \<and> write_error env src 1 = None \<and> write_error env src 2 = None
     \<and> write_error env src 3 = None \<and> write_error env src 4 = None"
  by (auto simp: first_write_error_def split: option.splits)

lemma writes_done_all: "first_write_error env src = None \<Longrightarrow> writes_done env src = 5"
  by (simp add: writes_done_def)

lemma writes_done_0_iff: "writes_done env src = 0 \<longleftrightarrow> write_error env src 0 \<noteq> None"
  by (auto simp: writes_done_def first_write_error_def split: option.splits)

lemma concat_artifact_pieces:
  "concat (artifact_pieces nm now text) = spec_artifact_layout nm now text"
  by (simp add: artifact_pieces_def spec_artifact_layout_def MODEL_SIZE_def)

lemma take_5_artifact_pieces: "take 5 (artifact_pieces nm now text) = artifact_pieces nm now text"
  by (simp add: artifact_pieces_def)

text \<open>The \<^verbatim>\<open>with\<close> block on a freshly opened file.\<close>

lemma write_artifact_effect:
  assumes "disk w p = Some (File [])"
  shows "write_artifact env src p nm text w =
     ((case first_write_error env src of None \<Rightarrow> Inr () | Some (k, e) \<Rightarrow> Inl e),
      w\<lparr>disk := (disk w)(p \<mapsto> File (concat (take (writes_done env src)
                                               (artifact_pieces nm (clock env (ticks w)) text)))),
        ticks := (if write_error env src 0 = None then Suc (ticks w) else ticks w)\<rparr>)"
proof (cases "write_error env src 0")
  case (Some e)
  have "(disk w)(p \<mapsto> File []) = disk w"
    using assms by (rule map_upd_triv)
  with Some show ?thesis
    by (simp add: write_artifact_def file_write_def first_write_error_def writes_done_def)
next
  case None
  then show ?thesis
    using assms
    by (simp add: write_artifact_def file_write_def first_write_error_def writes_done_def
        append_to_def artifact_pieces_def Let_def split: option.splits)
qed

subsection \<open>One call of \<^verbatim>\<open>transcribe_file\<close>\<close>

lemma transcribe_file_model_raises:
  assumes "transcribe env model (str_path (Path a)) = Inl e"
  shows "transcribe_file env model a dopt w = (Inl e, tf_called model a w)"
  using assms by (simp add: transcribe_file_def tf_called_def Let_def)

lemma transcribe_file_open_raises:
  assumes "transcribe env model (str_path (Path a)) = Inr raw"
    and "open_write env (disk w)
           (truediv (case dopt of None \<Rightarrow> OUTPUT_FOLDER env | Some d \<Rightarrow> d) (stem (Path a) @ ''.txt'')) = Inl e"
  shows "transcribe_file env model a dopt w = (Inl e, tf_called model a w)"
  using assms by (simp add: transcribe_file_def tf_called_def Let_def)

text \<open>
  Once the artifact is open, the state after the \<^verbatim>\<open>with\<close> block holds the writes that
  reached the file; the call returns when all five did.
\<close>

lemma transcribe_file_opened:
  assumes raw: "transcribe env model (str_path (Path a)) = Inr raw"
    and out: "out = truediv (case dopt of None \<Rightarrow> OUTPUT_FOLDER env | Some d \<Rightarrow> d) (stem (Path a) @ ''.txt'')"
    and ow: "open_write env (disk w) out = Inr fs1"
  shows "transcribe_file env model a dopt w =
     (case first_write_error env a of
        Some (k, e) \<Rightarrow>
          (Inl e,
           (tf_called model a w)
             \<lparr>disk := fs1(out \<mapsto> File (written env model a (clock env (ticks w)))),
               ticks := (if write_error env a 0 = None then Suc (ticks w) else ticks w)\<rparr>)
      | None \<Rightarrow>
          (Inr (str_path out),
           prints [''[OK] Saved transcription to: '' @ str_path out,
                   ''     Word count: ~'' @ dec (count_words False (strip raw)) @ '' words'']
             ((tf_called model a w)
                \<lparr>disk := fs1(out \<mapsto> File (written env model a (clock env (ticks w)))),
                  ticks := (if write_error env a 0 = None then Suc (ticks w) else ticks w)\<rparr>)))"
proof -
  define w2 where "w2 = (tf_called model a w)\<lparr>disk := fs1\<rparr>"
  have at: "disk w2 out = Some (File [])"
    using open_write_at [OF ow] by (simp add: w2_def)
  have tk: "ticks w2 = ticks w" and dk: "disk w2 = fs1"
    by (simp_all add: w2_def tf_called_def)
  have wa: "write_artifact env a out (name (Path a)) (strip raw) w2 =
     ((case first_write_error env a of None \<Rightarrow> Inr () | Some (k, e) \<Rightarrow> Inl e),
      (tf_called model a w)
        \<lparr>disk := fs1(out \<mapsto> File (written env model a (clock env (ticks w)))),
          ticks := (if write_error env a 0 = None then Suc (ticks w) else ticks w)\<rparr>)"
    unfolding write_artifact_effect [OF at] tk dk
    by (simp add: w2_def written_def transcript_of_def raw)
  have tf: "transcribe_file env model a dopt w =
     (case write_artifact env a out (name (Path a)) (strip raw) w2 of
        (Inl e, w3) \<Rightarrow> (Inl e, w3)
      | (Inr u, w3) \<Rightarrow>
          (Inr (str_path out),
           prints [''[OK] Saved transcription to: '' @ str_path out,
                   ''     Word count: ~'' @ dec (count_words False (strip raw)) @ '' words''] w3))"
    using raw ow unfolding out
    by (simp add: transcribe_file_def Let_def w2_def tf_called_def)
  show ?thesis
    unfolding tf wa by (simp split: option.splits)
qed

lemma fst_transcribe_file:
  "fst (transcribe_file env model a dopt w) =
     (case transcribe env model (str_path (Path a)) of
        Inl e \<Rightarrow> Inl e
      | Inr raw \<Rightarrow>
          (case open_write env (disk w)
                  (truediv (case dopt of None \<Rightarrow> OUTPUT_FOLDER env | Some d \<Rightarrow> d) (stem (Path a) @ ''.txt'')) of
             Inl e \<Rightarrow> Inl e
           | Inr fs1 \<Rightarrow>
               (case first_write_error env a of
                  Some (k, e) \<Rightarrow> Inl e
                | None \<Rightarrow>
                    Inr (str_path (truediv (case dopt of None \<Rightarrow> OUTPUT_FOLDER env | Some d \<Rightarrow> d)
                                      (stem (Path a) @ ''.txt''))))))"
proof (cases "transcribe env model (str_path (Path a))")
  case (Inl e)
  then show ?thesis by (simp add: transcribe_file_model_raises)
next
  case (Inr raw)
  show ?thesis
  proof (cases "open_write env (disk w)
                  (truediv (case dopt of None \<Rightarrow> OUTPUT_FOLDER env | Some d \<Rightarrow> d) (stem (Path a) @ ''.txt''))")
    case (Inl e)
    with Inr show ?thesis by (simp add: transcribe_file_open_raises)
  next
    case oInr: (Inr fs1)
    show ?thesis
      unfolding transcribe_file_opened [OF Inr refl oInr] Inr oInr
      by (simp split: option.splits)
  qed
qed

lemma fst_transcribe_file_attempt:
  "fst (transcribe_file env model f (Some (OUTPUT_FOLDER env)) w) = attempt env model (disk w) f"
  by (simp add: attempt_def fst_transcribe_file split: sum.splits)

lemma trace_transcribe_file:
  "trace (snd (transcribe_file env model a dopt w)) = trace w @ [EvTranscribe model (str_path (Path a))]"
proof (cases "transcribe env model (str_path (Path a))")
  case (Inl e)
  then show ?thesis by (simp add: transcribe_file_model_raises tf_called_def)
next
  case (Inr raw)
  show ?thesis
  proof (cases "open_write env (disk w)
                  (truediv (case dopt of None \<Rightarrow> OUTPUT_FOLDER env | Some d \<Rightarrow> d) (stem (Path a) @ ''.txt''))")
    case (Inl e)
    with Inr show ?thesis by (simp add: transcribe_file_open_raises tf_called_def)
  next
    case oInr: (Inr fs1)
    show ?thesis
      unfolding transcribe_file_opened [OF Inr refl oInr]
      by (simp add: tf_called_def split: option.splits)
  qed
qed

lemma stdout_transcribe_file:
  "\<exists>ls. stdout (snd (transcribe_file env model a dopt w)) = stdout w @ ls"
proof (cases "transcribe env model (str_path (Path a))")
  case (Inl e)
  then show ?thesis by (simp add: transcribe_file_model_raises tf_called_def)
next
  case (Inr raw)
  show ?thesis
  proof (cases "open_write env (disk w)
                  (truediv (case dopt of None \<Rightarrow> OUTPUT_FOLDER env | Some d \<Rightarrow> d) (stem (Path a) @ ''.txt''))")
    case (Inl e)
    with Inr show ?thesis by (simp add: transcribe_file_open_raises tf_called_def)
  next
    case oInr: (Inr fs1)
    show ?thesis
      unfolding transcribe_file_opened [OF Inr refl oInr]
      by (simp add: tf_called_def split: option.splits)
  qed
qed

lemma dir_at_transcribe_file:
  "dir_at (disk (snd (transcribe_file env model a dopt w))) p = dir_at (disk w) p"
proof (cases "transcribe env model (str_path (Path a))")
  case (Inl e)
  then show ?thesis by (simp add: transcribe_file_model_raises tf_called_def)
next
  case (Inr raw)
  define out where "out = truediv (case dopt of None \<Rightarrow> OUTPUT_FOLDER env | Some d \<Rightarrow> d) (stem (Path a) @ ''.txt'')"
  show ?thesis
  proof (cases "open_write env (disk w) out")
    case (Inl e)
    with Inr show ?thesis
      by (simp add: transcribe_file_open_raises out_def tf_called_def)
  next
    case oInr: (Inr fs1)
    from oInr have a: "\<not> dir_at (disk w) out" and b: "dir_at (disk w) (parent out)"
      and c: "fs1 = (disk w)(parent out \<mapsto> Dir (if name out \<in> set (scandir (disk w) (parent out))
                 then scandir (disk w) (parent out) else scandir (disk w) (parent out) @ [name out]),
              out \<mapsto> File [])"
      by (simp_all add: open_write_Inr_iff)
    have "dir_at (fs1(out \<mapsto> File x)) p = dir_at (disk w) p" for x
      using a b by (auto simp: c dir_at_def)
    then show ?thesis
      unfolding transcribe_file_opened [OF Inr out_def oInr]
      by (simp add: tf_called_def split: option.splits)
  qed
qed

subsection \<open>The outcome of a file does not depend on the earlier files\<close>

lemma attempt_cases:
  assumes "dir_at fs (OUTPUT_FOLDER env)"
  shows "attempt env model fs f =
     (case transcribe env model (str_path (Path f)) of
        Inl e \<Rightarrow> Inl e
      | Inr raw \<Rightarrow>
          (case stat_failure env (output_path_of env f) of
             Some e \<Rightarrow> Inl e
           | None \<Rightarrow>
               if dir_at fs (output_path_of env f)
               then Inl (os_error ''IsADirectoryError'' 21 ''Is a directory'' (output_path_of env f))
               else (case open_error env (output_path_of env f) of
                       Some e \<Rightarrow> Inl e
                     | None \<Rightarrow>
                         (case first_write_error env f of
                            Some (k, e) \<Rightarrow> Inl e
                          | None \<Rightarrow> Inr (str_path (output_path_of env f))))))"
proof -
  have par: "dir_at fs (parent (output_path_of env f))"
    using assms by (simp add: output_path_of_child)
  show ?thesis
    by (simp add: attempt_def fst_transcribe_file output_path_of_def [symmetric]
        open_write_in_dir [OF par] split: sum.splits option.splits)
qed

lemma opens_cases:
  assumes "dir_at fs (OUTPUT_FOLDER env)"
  shows "opens env model fs f \<longleftrightarrow>
     \<not> isl (transcribe env model (str_path (Path f)))
     \<and> stat_failure env (output_path_of env f) = None \<and> open_error env (output_path_of env f) = None
     \<and> \<not> dir_at fs (output_path_of env f)"
proof -
  have par: "dir_at fs (parent (output_path_of env f))"
    using assms by (simp add: output_path_of_child)
  show ?thesis
    by (simp add: opens_def open_write_in_dir [OF par] split: sum.splits option.splits)
qed

lemma attempt_cong:
  assumes "dir_at fs (OUTPUT_FOLDER env)" and "\<And>p. dir_at fs' p = dir_at fs p"
  shows "attempt env model fs' f = attempt env model fs f"
  using assms by (simp add: attempt_cases)

lemma succeeds_cong:
  assumes "dir_at fs (OUTPUT_FOLDER env)" and "\<And>p. dir_at fs' p = dir_at fs p"
  shows "succeeds env model fs' = succeeds env model fs"
  using attempt_cong [OF assms] by (auto simp: succeeds_def fun_eq_iff)

lemma opens_cong:
  assumes "dir_at fs (OUTPUT_FOLDER env)" and "\<And>p. dir_at fs' p = dir_at fs p"
  shows "opens env model fs' = opens env model fs"
  using assms by (simp add: opens_cases fun_eq_iff)

lemma reads_clock_cong:
  assumes "dir_at fs (OUTPUT_FOLDER env)" and "\<And>p. dir_at fs' p = dir_at fs p"
  shows "reads_clock env model fs' = reads_clock env model fs"
  using opens_cong [OF assms] by (simp add: reads_clock_def fun_eq_iff)

lemma succeeds_iff:
  assumes "dir_at fs (OUTPUT_FOLDER env)"
  shows "succeeds env model fs f \<longleftrightarrow> opens env model fs f \<and> first_write_error env f = None"
  using assms
  by (auto simp: succeeds_def attempt_cases opens_cases split: sum.splits option.splits)

lemma succeeds_attempt:
  assumes "dir_at fs (OUTPUT_FOLDER env)"
  shows "succeeds env model fs f \<longleftrightarrow> attempt env model fs f = Inr (str_path (output_path_of env f))"
  using assms by (auto simp: succeeds_def attempt_cases split: sum.splits option.splits)

lemma succeeds_reads_clock:
  assumes "dir_at fs (OUTPUT_FOLDER env)" and "succeeds env model fs f"
  shows "reads_clock env model fs f"
  using assms by (simp add: succeeds_iff reads_clock_def first_write_error_None_iff)

lemma written_complete:
  "first_write_error env f = None \<Longrightarrow>
   written env model f now = spec_artifact_layout (name (Path f)) now (transcript_of env model f)"
  by (simp add: written_def writes_done_all take_5_artifact_pieces concat_artifact_pieces)

text \<open>One iteration of the loop body, seen through its effect on the state.\<close>

lemma step_world:
  fixes env :: "'m env" and model :: 'm and f :: string and w :: "'m world"
  assumes D: "dir_at (disk w) (OUTPUT_FOLDER env)"
  defines "r \<equiv> transcribe_file env model f (Some (OUTPUT_FOLDER env)) w"
  shows "fst r = attempt env model (disk w) f"
    and "opens env model (disk w) f \<Longrightarrow>
           disk (snd r) = (disk w)
             (OUTPUT_FOLDER env \<mapsto>
                Dir (if name (output_path_of env f) \<in> set (scandir (disk w) (OUTPUT_FOLDER env))
                     then scandir (disk w) (OUTPUT_FOLDER env)
                     else scandir (disk w) (OUTPUT_FOLDER env) @ [name (output_path_of env f)]),
              output_path_of env f \<mapsto> File (written env model f (clock env (ticks w))))"
    and "\<not> opens env model (disk w) f \<Longrightarrow> disk (snd r) = disk w"
    and "ticks (snd r) = (if reads_clock env model (disk w) f then Suc (ticks w) else ticks w)"
proof -
  show "fst r = attempt env model (disk w) f"
    by (simp add: r_def fst_transcribe_file_attempt)
  have out: "output_path_of env f =
      truediv (case Some (OUTPUT_FOLDER env) of None \<Rightarrow> OUTPUT_FOLDER env | Some d \<Rightarrow> d) (stem (Path f) @ ''.txt'')"
    by (simp add: output_path_of_def)
  have par: "parent (output_path_of env f) = OUTPUT_FOLDER env"
    by (simp add: output_path_of_child)
  {
    assume ok: "opens env model (disk w) f"
    then obtain raw where raw: "transcribe env model (str_path (Path f)) = Inr raw"
      by (cases "transcribe env model (str_path (Path f))") (simp_all add: opens_def)
    with ok obtain fs1 where ow: "open_write env (disk w) (output_path_of env f) = Inr fs1"
      by (cases "open_write env (disk w) (output_path_of env f)") (simp_all add: opens_def)
    from ow have fs1: "fs1 = (disk w)
             (OUTPUT_FOLDER env \<mapsto>
                Dir (if name (output_path_of env f) \<in> set (scandir (disk w) (OUTPUT_FOLDER env))
                     then scandir (disk w) (OUTPUT_FOLDER env)
                     else scandir (disk w) (OUTPUT_FOLDER env) @ [name (output_path_of env f)]),
              output_path_of env f \<mapsto> File [])"
      by (simp add: open_write_Inr_iff par)
    have d: "disk (snd r) = fs1(output_path_of env f \<mapsto> File (written env model f (clock env (ticks w))))"
      unfolding r_def transcribe_file_opened [OF raw out ow]
      by (simp split: option.splits)
    show "disk (snd r) = (disk w)
             (OUTPUT_FOLDER env \<mapsto>
                Dir (if name (output_path_of env f) \<in> set (scandir (disk w) (OUTPUT_FOLDER env))
                     then scandir (disk w) (OUTPUT_FOLDER env)
                     else scandir (disk w) (OUTPUT_FOLDER env) @ [name (output_path_of env f)]),
              output_path_of env f \<mapsto> File (written env model f (clock env (ticks w))))"
      unfolding d fs1 by simp
    have "ticks (snd r) = (if write_error env f 0 = None then Suc (ticks w) else ticks w)"
      unfolding r_def transcribe_file_opened [OF raw out ow]
      by (simp add: tf_called_def split: option.splits)
    with ok have "ticks (snd r) = (if reads_clock env model (disk w) f then Suc (ticks w) else ticks w)"
      by (simp add: reads_clock_def)
  }
  note opened = this
  {
    assume bad: "\<not> opens env model (disk w) f"
    have "r = (fst r, tf_called model f w)"
    proof (cases "transcribe env model (str_path (Path f))")
      case (Inl e)
      then show ?thesis by (simp add: r_def transcribe_file_model_raises)
    next
      case (Inr raw)
      with bad obtain e where "open_write env (disk w) (output_path_of env f) = Inl e"
        by (cases "open_write env (disk w) (output_path_of env f)") (simp_all add: opens_def)
      with Inr show ?thesis
        by (simp add: r_def transcribe_file_open_raises output_path_of_def)
    qed
    then have s: "snd r = tf_called model f w"
      by (metis snd_conv)
    show "disk (snd r) = disk w"
      by (simp add: s tf_called_def)
    have "ticks (snd r) = ticks w"
      by (simp add: s tf_called_def)
    with bad have "ticks (snd r) = (if reads_clock env model (disk w) f then Suc (ticks w) else ticks w)"
      by (simp add: reads_clock_def)
  }
  note closed = this
  show "ticks (snd r) = (if reads_clock env model (disk w) f then Suc (ticks w) else ticks w)"
    using opened closed by (cases "opens env model (disk w) f") blast+
qed

subsection \<open>The batch loop\<close>

lemma trace_batch_loop:
  "trace (snd (batch_loop env model t i files acc w)) =
     trace w @ map (\<lambda>f. EvTranscribe model (str_path (Path f))) files"
proof (induction files arbitrary: i acc w)
  case Nil
  show ?case by simp
next
  case (Cons f rest)
  let ?w1 = "print (NL @ ''['' @ dec i @ ''/'' @ dec t @ ''] Processing...'') w"
  obtain r w2 where tf: "transcribe_file env model f (Some (OUTPUT_FOLDER env)) ?w1 = (r, w2)"
    by (cases "transcribe_file env model f (Some (OUTPUT_FOLDER env)) ?w1")
  have tr: "trace w2 = trace w @ [EvTranscribe model (str_path (Path f))]"
    using trace_transcribe_file [of env model f "Some (OUTPUT_FOLDER env)" ?w1] tf by simp
  show ?case
    using tf tr by (cases r) (simp_all add: Cons.IH)
qed

lemma batch_loop_Cons_world:
  fixes env :: "'m env" and model :: 'm and f :: string and w :: "'m world"
  assumes D: "dir_at (disk w) (OUTPUT_FOLDER env)"
  shows "\<exists>w2. batch_loop env model t i (f # rest) acc w =
            batch_loop env model t (Suc i) rest
              (if succeeds env model (disk w) f then acc @ [str_path (output_path_of env f)] else acc) w2
     \<and> disk w2 =
         (if opens env model (disk w) f
          then (disk w)
             (OUTPUT_FOLDER env \<mapsto>
                Dir (if name (output_path_of env f) \<in> set (scandir (disk w) (OUTPUT_FOLDER env))
                     then scandir (disk w) (OUTPUT_FOLDER env)
                     else scandir (disk w) (OUTPUT_FOLDER env) @ [name (output_path_of env f)]),
              output_path_of env f \<mapsto> File (written env model f (clock env (ticks w))))
          else disk w)
     \<and> ticks w2 = (if reads_clock env model (disk w) f then Suc (ticks w) else ticks w)
     \<and> (\<forall>p. dir_at (disk w2) p = dir_at (disk w) p)
     \<and> (\<exists>ls. stdout w2 = stdout w @ ls)
     \<and> (\<forall>e. attempt env model (disk w) f = Inl e \<longrightarrow>
            NL @ ''[ERROR] Error transcribing '' @ f @ '': '' @ str_exn e \<in> set (stdout w2))"
proof -
  define w1 where "w1 = print (NL @ ''['' @ dec i @ ''/'' @ dec t @ ''] Processing...'') w"
  obtain r w2 where tf: "transcribe_file env model f (Some (OUTPUT_FOLDER env)) w1 = (r, w2)"
    by (cases "transcribe_file env model f (Some (OUTPUT_FOLDER env)) w1")
  have w1: "disk w1 = disk w" "ticks w1 = ticks w" "stdout w1 = stdout w @ [NL @ ''['' @ dec i @ ''/'' @ dec t @ ''] Processing...'']"
    by (simp_all add: w1_def)
  have D1: "dir_at (disk w1) (OUTPUT_FOLDER env)"
    using D w1 by simp
  have r: "r = attempt env model (disk w) f"
    using step_world(1) [OF D1, of model f] tf w1 by simp
  have dirs2: "\<forall>p. dir_at (disk w2) p = dir_at (disk w) p"
    using dir_at_transcribe_file [of env model f "Some (OUTPUT_FOLDER env)" w1] tf w1 by simp
  obtain ls where ls: "stdout w2 = stdout w1 @ ls"
    using stdout_transcribe_file [of env model f "Some (OUTPUT_FOLDER env)" w1] tf by auto
  have unfold: "batch_loop env model t i (f # rest) acc w =
      (case r of
         Inr output_path \<Rightarrow> batch_loop env model t (Suc i) rest (acc @ [output_path]) w2
       | Inl e \<Rightarrow> batch_loop env model t (Suc i) rest acc
            (print (NL @ ''[ERROR] Error transcribing '' @ f @ '': '' @ str_exn e) w2))"
    using tf by (simp add: w1_def split: sum.splits)
  have disk2: "disk w2 =
         (if opens env model (disk w) f
          then (disk w)
             (OUTPUT_FOLDER env \<mapsto>
                Dir (if name (output_path_of env f) \<in> set (scandir (disk w) (OUTPUT_FOLDER env))
                     then scandir (disk w) (OUTPUT_FOLDER env)
                     else scandir (disk w) (OUTPUT_FOLDER env) @ [name (output_path_of env f)]),
              output_path_of env f \<mapsto> File (written env model f (clock env (ticks w))))
          else disk w)"
  proof (cases "opens env model (disk w) f")
    case True
    then have "opens env model (disk w1) f" using w1 by simp
    from step_world(2) [OF D1 this] tf w1 True show ?thesis by simp
  next
    case False
    then have "\<not> opens env model (disk w1) f" using w1 by simp
    from step_world(3) [OF D1 this] tf w1 False show ?thesis by simp
  qed
  have ticks2: "ticks w2 = (if reads_clock env model (disk w) f then Suc (ticks w) else ticks w)"
    using step_world(4) [OF D1, of model f] tf w1 by simp
  show ?thesis
  proof (cases "succeeds env model (disk w) f")
    case True
    then have a: "attempt env model (disk w) f = Inr (str_path (output_path_of env f))"
      using D by (simp add: succeeds_attempt)
    have 1: "batch_loop env model t i (f # rest) acc w =
        batch_loop env model t (Suc i) rest
          (if succeeds env model (disk w) f then acc @ [str_path (output_path_of env f)] else acc) w2"
      by (simp only: unfold r a sum.case True if_True)
    have 4: "\<exists>ls. stdout w2 = stdout w @ ls"
      using ls w1 by simp
    have 5: "\<forall>e. attempt env model (disk w) f = Inl e \<longrightarrow>
            NL @ ''[ERROR] Error transcribing '' @ f @ '': '' @ str_exn e \<in> set (stdout w2)"
      using a by simp
    show ?thesis
      apply (rule exI [of _ w2])
      apply (intro conjI)
           apply (rule 1)
          apply (rule disk2)
         apply (rule ticks2)
        apply (rule dirs2)
       apply (rule 4)
      apply (rule 5)
      done
  next
    case False
    then obtain e where e: "attempt env model (disk w) f = Inl e"
      by (cases "attempt env model (disk w) f") (simp_all add: succeeds_def)
    define w3 where "w3 = print (NL @ ''[ERROR] Error transcribing '' @ f @ '': '' @ str_exn e) w2"
    have 1: "batch_loop env model t i (f # rest) acc w =
        batch_loop env model t (Suc i) rest
          (if succeeds env model (disk w) f then acc @ [str_path (output_path_of env f)] else acc) w3"
      by (simp only: unfold r e sum.case w3_def False if_False)
    have 2: "disk w3 =
         (if opens env model (disk w) f
          then (disk w)
             (OUTPUT_FOLDER env \<mapsto>
                Dir (if name (output_path_of env f) \<in> set (scandir (disk w) (OUTPUT_FOLDER env))
                     then scandir (disk w) (OUTPUT_FOLDER env)
                     else scandir (disk w) (OUTPUT_FOLDER env) @ [name (output_path_of env f)]),
              output_path_of env f \<mapsto> File (written env model f (clock env (ticks w))))
          else disk w)"
      using disk2 by (simp add: w3_def)
    have 3: "ticks w3 = (if reads_clock env model (disk w) f then Suc (ticks w) else ticks w)"
      using ticks2 by (simp add: w3_def)
    have d: "\<forall>p. dir_at (disk w3) p = dir_at (disk w) p"
      using dirs2 by (simp add: w3_def)
    have 4: "\<exists>ls. stdout w3 = stdout w @ ls"
      using ls w1 by (simp add: w3_def)
    have 5: "\<forall>e. attempt env model (disk w) f = Inl e \<longrightarrow>
            NL @ ''[ERROR] Error transcribing '' @ f @ '': '' @ str_exn e \<in> set (stdout w3)"
      using e by (simp add: w3_def)
    show ?thesis
      apply (rule exI [of _ w3])
      apply (intro conjI)
           apply (rule 1)
          apply (rule 2)
         apply (rule 3)
        apply (rule d)
       apply (rule 4)
      apply (rule 5)
      done
  qed
qed


lemma fst_batch_loop:
  assumes "dir_at (disk w) (OUTPUT_FOLDER env)"
  shows "fst (batch_loop env model t i files acc w) =
     acc @ map (\<lambda>f. str_path (output_path_of env f)) (filter (succeeds env model (disk w)) files)"
  using assms
proof (induction files arbitrary: i acc w)
  case Nil
  show ?case by simp
next
  case (Cons f rest)
  from batch_loop_Cons_world [OF Cons.prems, of model t i f rest acc]
  obtain w2 where step: "batch_loop env model t i (f # rest) acc w =
            batch_loop env model t (Suc i) rest
              (if succeeds env model (disk w) f then acc @ [str_path (output_path_of env f)] else acc) w2"
    and dirs: "\<And>p. dir_at (disk w2) p = dir_at (disk w) p"
    by blast
  have D2: "dir_at (disk w2) (OUTPUT_FOLDER env)"
    using dirs Cons.prems by simp
  have same: "succeeds env model (disk w2) = succeeds env model (disk w)"
    by (rule succeeds_cong [OF Cons.prems dirs])
  show ?case
    by (simp only: step Cons.IH [OF D2] same) simp
qed

lemma ticks_batch_loop:
  assumes "dir_at (disk w) (OUTPUT_FOLDER env)"
  shows "ticks (snd (batch_loop env model t i files acc w)) =
     ticks w + length (filter (reads_clock env model (disk w)) files)"
  using assms
proof (induction files arbitrary: i acc w)
  case Nil
  show ?case by simp
next
  case (Cons f rest)
  from batch_loop_Cons_world [OF Cons.prems, of model t i f rest acc]
  obtain w2 where step: "batch_loop env model t i (f # rest) acc w =
            batch_loop env model t (Suc i) rest
              (if succeeds env model (disk w) f then acc @ [str_path (output_path_of env f)] else acc) w2"
    and ticks: "ticks w2 = (if reads_clock env model (disk w) f then Suc (ticks w) else ticks w)"
    and dirs: "\<And>p. dir_at (disk w2) p = dir_at (disk w) p"
    by blast
  have D2: "dir_at (disk w2) (OUTPUT_FOLDER env)"
    using dirs Cons.prems by simp
  have same: "reads_clock env model (disk w2) = reads_clock env model (disk w)"
    by (rule reads_clock_cong [OF Cons.prems dirs])
  show ?case
    by (simp only: step Cons.IH [OF D2] same ticks) simp
qed


lemma disk_batch_loop_other:
  assumes "dir_at (disk w) (OUTPUT_FOLDER env)"
    and "\<And>g. g \<in> set files \<Longrightarrow> opens env model (disk w) g \<Longrightarrow> output_path_of env g \<noteq> q"
    and "q \<noteq> OUTPUT_FOLDER env"
  shows "disk (snd (batch_loop env model t i files acc w)) q = disk w q"
  using assms
proof (induction files arbitrary: i acc w)
  case Nil
  show ?case by simp
next
  case (Cons f rest)
  from batch_loop_Cons_world [OF Cons.prems(1), of model t i f rest acc]
  obtain w2 where step: "batch_loop env model t i (f # rest) acc w =
            batch_loop env model t (Suc i) rest
              (if succeeds env model (disk w) f then acc @ [str_path (output_path_of env f)] else acc) w2"
    and disk: "disk w2 =
         (if opens env model (disk w) f
          then (disk w)
             (OUTPUT_FOLDER env \<mapsto>
                Dir (if name (output_path_of env f) \<in> set (scandir (disk w) (OUTPUT_FOLDER env))
                     then scandir (disk w) (OUTPUT_FOLDER env)
                     else scandir (disk w) (OUTPUT_FOLDER env) @ [name (output_path_of env f)]),
              output_path_of env f \<mapsto> File (written env model f (clock env (ticks w))))
          else disk w)"
    and dirs: "\<And>p. dir_at (disk w2) p = dir_at (disk w) p"
    by blast
  have D2: "dir_at (disk w2) (OUTPUT_FOLDER env)"
    using dirs Cons.prems(1) by simp
  have same: "opens env model (disk w2) = opens env model (disk w)"
    by (rule opens_cong [OF Cons.prems(1) dirs])
  have q: "disk w2 q = disk w q"
    using Cons.prems(2) [of f] Cons.prems(3) by (auto simp: disk)
  have "disk (snd (batch_loop env model t (Suc i) rest
              (if succeeds env model (disk w) f then acc @ [str_path (output_path_of env f)] else acc) w2)) q
        = disk w2 q"
    by (rule Cons.IH [OF D2 _ Cons.prems(3)]) (use Cons.prems(2) same in auto)
  with q show ?case
    by (simp only: step)
qed

lemma disk_batch_loop_last_writer:
  assumes "dir_at (disk w) (OUTPUT_FOLDER env)"
    and "opens env model (disk w) f"
    and "\<And>g. g \<in> set post \<Longrightarrow> opens env model (disk w) g \<Longrightarrow> output_path_of env g \<noteq> output_path_of env f"
  shows "disk (snd (batch_loop env model t i (pre @ f # post) acc w)) (output_path_of env f) =
     Some (File (written env model f
                   (clock env (ticks w + length (filter (reads_clock env model (disk w)) pre)))))"
  using assms
proof (induction pre arbitrary: i acc w)
  case Nil
  from batch_loop_Cons_world [OF Nil.prems(1), of model t i f post acc]
  obtain w2 where step: "batch_loop env model t i (f # post) acc w =
            batch_loop env model t (Suc i) post
              (if succeeds env model (disk w) f then acc @ [str_path (output_path_of env f)] else acc) w2"
    and disk: "disk w2 =
         (if opens env model (disk w) f
          then (disk w)
             (OUTPUT_FOLDER env \<mapsto>
                Dir (if name (output_path_of env f) \<in> set (scandir (disk w) (OUTPUT_FOLDER env))
                     then scandir (disk w) (OUTPUT_FOLDER env)
                     else scandir (disk w) (OUTPUT_FOLDER env) @ [name (output_path_of env f)]),
              output_path_of env f \<mapsto> File (written env model f (clock env (ticks w))))
          else disk w)"
    and dirs: "\<And>p. dir_at (disk w2) p = dir_at (disk w) p"
    by blast
  have D2: "dir_at (disk w2) (OUTPUT_FOLDER env)"
    using dirs Nil.prems(1) by simp
  have same: "opens env model (disk w2) = opens env model (disk w)"
    by (rule opens_cong [OF Nil.prems(1) dirs])
  have "disk (snd (batch_loop env model t (Suc i) post
              (if succeeds env model (disk w) f then acc @ [str_path (output_path_of env f)] else acc) w2))
          (output_path_of env f) = disk w2 (output_path_of env f)"
    by (rule disk_batch_loop_other [OF D2]) (use Nil.prems(3) same in auto)
  with Nil.prems(2) show ?case
    by (simp only: append_Nil step) (simp add: disk)
next
  case (Cons g pre)
  from batch_loop_Cons_world [OF Cons.prems(1), of model t i g "pre @ f # post" acc]
  obtain w2 where step: "batch_loop env model t i (g # pre @ f # post) acc w =
            batch_loop env model t (Suc i) (pre @ f # post)
              (if succeeds env model (disk w) g then acc @ [str_path (output_path_of env g)] else acc) w2"
    and ticks: "ticks w2 = (if reads_clock env model (disk w) g then Suc (ticks w) else ticks w)"
    and dirs: "\<And>p. dir_at (disk w2) p = dir_at (disk w) p"
    by blast
  have D2: "dir_at (disk w2) (OUTPUT_FOLDER env)"
    using dirs Cons.prems(1) by simp
  have same: "opens env model (disk w2) = opens env model (disk w)"
    by (rule opens_cong [OF Cons.prems(1) dirs])
  have same': "reads_clock env model (disk w2) = reads_clock env model (disk w)"
    by (rule reads_clock_cong [OF Cons.prems(1) dirs])
  have "disk (snd (batch_loop env model t (Suc i) (pre @ f # post)
              (if succeeds env model (disk w) g then acc @ [str_path (output_path_of env g)] else acc) w2))
          (output_path_of env f) =
     Some (File (written env model f
                   (clock env (ticks w2 + length (filter (reads_clock env model (disk w2)) pre)))))"
    by (rule Cons.IH [OF D2]) (use Cons.prems(2,3) same in auto)
  then show ?case
    by (simp only: append_Cons step) (simp add: same' ticks)
qed


lemma dir_at_batch_loop:
  "dir_at (disk (snd (batch_loop env model t i files acc w))) p = dir_at (disk w) p"
proof (induction files arbitrary: i acc w)
  case Nil
  show ?case by simp
next
  case (Cons f rest)
  let ?w1 = "print (NL @ ''['' @ dec i @ ''/'' @ dec t @ ''] Processing...'') w"
  obtain r w2 where tf: "transcribe_file env model f (Some (OUTPUT_FOLDER env)) ?w1 = (r, w2)"
    by (cases "transcribe_file env model f (Some (OUTPUT_FOLDER env)) ?w1")
  have d: "dir_at (disk w2) p = dir_at (disk w) p"
    using dir_at_transcribe_file [of env model f "Some (OUTPUT_FOLDER env)" ?w1 p] tf by simp
  show ?case
    using tf d by (cases r) (simp_all add: Cons.IH)
qed

subsection \<open>The steps of \<^verbatim>\<open>main\<close>\<close>

lemma print_found_fields [simp]:
  "disk (print_found i fs w) = disk w"
  "trace (print_found i fs w) = trace w"
  "ticks (print_found i fs w) = ticks w"
  by (induction fs arbitrary: i w) simp_all

lemma print_generated_fields [simp]:
  "disk (print_generated fs w) = disk w"
  "trace (print_generated fs w) = trace w"
  "ticks (print_generated fs w) = ticks w"
  by (induction fs arbitrary: w) simp_all

lemma stdout_print_generated:
  "stdout (print_generated fs w) = stdout w @ map (\<lambda>f. ''  - '' @ name (Path f)) fs"
  by (induction fs arbitrary: w) simp_all

lemma loop_entry_fields [simp]:
  "disk (loop_entry env argv files w2) = disk w2"
  "trace (loop_entry env argv files w2) = trace w2 @ [EvLoad MODEL_SIZE]"
  "ticks (loop_entry env argv files w2) = ticks w2"
  by (simp_all add: loop_entry_def)

lemma mkdir_exist_ok_dir_at: "mkdir_exist_ok env fs p = Inr fs' \<Longrightarrow> dir_at fs' p"
  by (auto simp: mkdir_exist_ok_def stat_def dir_at_def split: option.splits node.splits)

lemma mkdir_exist_ok_files:
  "mkdir_exist_ok env fs p = Inr fs' \<Longrightarrow> fs' q = Some (File c) \<longleftrightarrow> fs q = Some (File c)"
  by (auto simp: mkdir_exist_ok_def stat_def split: option.splits node.splits if_splits)

lemma ensure_folders_exist_fields:
  "stdout (snd (ensure_folders_exist env w)) = stdout w"
  "trace (snd (ensure_folders_exist env w)) = trace w"
  "ticks (snd (ensure_folders_exist env w)) = ticks w"
  by (simp_all add: ensure_folders_exist_def split: sum.splits)

lemma ensure_folders_exist_files:
  "disk (snd (ensure_folders_exist env w)) q = Some (File c) \<longleftrightarrow> disk w q = Some (File c)"
  by (auto simp: ensure_folders_exist_def mkdir_exist_ok_files split: sum.splits)

lemma ensure_folders_exist_ready:
  "ensure_folders_exist env w = (Inr u, w2) \<Longrightarrow> dir_at (disk w2) (OUTPUT_FOLDER env)"
  by (auto simp: ensure_folders_exist_def mkdir_exist_ok_dir_at split: sum.splits)

lemma ensure_folders_exist_trace:
  assumes "ensure_folders_exist env w = (r, w2)"
  shows "trace w2 = trace w" and "ticks w2 = ticks w" and "stdout w2 = stdout w"
    and "disk w2 q = Some (File c) \<longleftrightarrow> disk w q = Some (File c)"
  using ensure_folders_exist_fields [of env w] ensure_folders_exist_files [of env w q c] assms
  by simp_all





lemma main_batch:
  assumes "ensure_folders_exist env (prints banner_lines w0) = (Inr u, w2)"
    and "get_mp3_files env (disk w2) (input_path_of argv) = Inr files" and "files \<noteq> []"
    and "load_model env MODEL_SIZE = Inr model"
    and "batch_loop env model (length files) 1 files [] (loop_entry env argv files w2) = (outs, w8)"
  shows "main env argv w0 =
     (Returned, print_generated outs (prints (summary_lines env (length outs) (length files)) w8))"
  using assms by (simp add: main_def Let_def loop_entry_def)

lemma main_run:
  fixes env :: "'m env"
  assumes E: "ensure_folders_exist env (prints banner_lines w0) = (Inr u, w2)"
    and F: "get_mp3_files env (disk w2) (input_path_of argv) = Inr files" "files \<noteq> []"
    and L: "load_model env MODEL_SIZE = Inr model"
  obtains w8 w' where
    "w8 = snd (batch_loop env model (length files) 1 files [] (loop_entry env argv files w2))"
    and "main env argv w0 = (Returned, w')"
    and "stdout w' = stdout w8
           @ summary_lines env (length (filter (succeeds env model (disk w2)) files)) (length files)
           @ map (\<lambda>f. ''  - '' @ name (Path (str_path (output_path_of env f))))
               (filter (succeeds env model (disk w2)) files)"
    and "disk w' = disk w8" and "trace w' = trace w8" and "ticks w' = ticks w8"
proof -
  let ?entry = "loop_entry env argv files w2"
  obtain outs w8 where loop: "batch_loop env model (length files) 1 files [] ?entry = (outs, w8)"
    by (cases "batch_loop env model (length files) 1 files [] ?entry")
  have D: "dir_at (disk ?entry) (OUTPUT_FOLDER env)"
    using ensure_folders_exist_ready [OF E] by simp
  have outs: "outs = map (\<lambda>f. str_path (output_path_of env f)) (filter (succeeds env model (disk w2)) files)"
    using fst_batch_loop [OF D, of model "length files" 1 files "[]"] loop by simp
  define w' where "w' = print_generated outs (prints (summary_lines env (length outs) (length files)) w8)"
  have m: "main env argv w0 = (Returned, w')"
    unfolding w'_def by (rule main_batch [OF E F L loop])
  have s: "stdout w' = stdout w8
           @ summary_lines env (length (filter (succeeds env model (disk w2)) files)) (length files)
           @ map (\<lambda>f. ''  - '' @ name (Path (str_path (output_path_of env f))))
               (filter (succeeds env model (disk w2)) files)"
    by (simp add: w'_def stdout_print_generated outs comp_def)
  have f: "disk w' = disk w8" "trace w' = trace w8" "ticks w' = ticks w8"
    by (simp_all add: w'_def)
  from loop have "w8 = snd (batch_loop env model (length files) 1 files [] ?entry)"
    by simp
  from that [OF this m s f] show ?thesis .
qed

lemma exit_status_nonzero_iff: "exit_status out \<noteq> 0 \<longleftrightarrow> out \<noteq> Returned \<and> out \<noteq> SysExit 0"
  by (cases out) auto

section \<open>The file discoverer\<close>

subsection \<open>Paths and their strings\<close>

text \<open>A parsed path is recovered from its string.\<close>

lemma split_on_append_sep: "c \<notin> set x \<Longrightarrow> split_on c (x @ c # rest) = x # split_on c rest"
  by (induction x) auto

lemma split_on_join:
  "t \<noteq> [] \<Longrightarrow> (\<And>x. x \<in> set t \<Longrightarrow> CHR ''/'' \<notin> set x) \<Longrightarrow> split_on CHR ''/'' (join ''/'' t) = t"
proof (induction t rule: induct_list012)
  case 1
  then show ?case by simp
next
  case (2 x)
  then show ?case by (simp add: split_on_no_sep)
next
  case (3 x y zs)
  have "split_on CHR ''/'' (join ''/'' (x # y # zs)) = x # split_on CHR ''/'' (join ''/'' (y # zs))"
    using "3.prems"(2) [of x] split_on_append_sep [of "CHR ''/''" x "join ''/'' (y # zs)"] by simp
  also have "split_on CHR ''/'' (join ''/'' (y # zs)) = y # zs"
    using "3.IH"(2) "3.prems"(2) by simp
  finally show ?case .
qed

lemma join_starts:
  "t \<noteq> [] \<Longrightarrow> hd t \<noteq> [] \<Longrightarrow> CHR ''/'' \<notin> set (hd t) \<Longrightarrow> take 1 (join ''/'' t) \<noteq> ''/''"
proof -
  assume t: "t \<noteq> []" and ne: "hd t \<noteq> []" and ns: "CHR ''/'' \<notin> set (hd t)"
  from t obtain x xs where tx: "t = x # xs"
    by (cases t) auto
  with ne obtain c cs where x: "x = c # cs"
    by (cases x) auto
  with ns tx have c: "c \<noteq> CHR ''/''"
    by auto
  have "join ''/'' t = c # tl (join ''/'' t)"
    using tx x by (cases xs) simp_all
  then have "take 1 (join ''/'' t) = [c]"
    by (metis One_nat_def take0 take_Suc_Cons)
  with c show ?thesis by simp
qed

lemma path_tail_Path:
  "x \<in> set (path_tail (Path s)) \<Longrightarrow> x \<noteq> [] \<and> x \<noteq> ''.'' \<and> CHR ''/'' \<notin> set x"
  by (auto simp: Path_def dest: split_on_parts)

lemma path_root_Path: "path_root (Path s) = [] \<or> path_root (Path s) = ''/'' \<or> path_root (Path s) = ''//''"
  by (simp add: Path_def)

lemma Path_str_path:
  assumes wf: "\<And>x. x \<in> set t \<Longrightarrow> x \<noteq> [] \<and> x \<noteq> ''.'' \<and> CHR ''/'' \<notin> set x"
    and root: "r = [] \<or> r = ''/'' \<or> r = ''//''"
  shows "Path (str_path (PurePath r t)) = PurePath r t"
proof (cases "t = []")
  case True
  with root show ?thesis
    by (auto simp: str_path_def Path_def)
next
  case False
  have sp: "split_on CHR ''/'' (join ''/'' t) = t"
    using False wf by (intro split_on_join) auto
  have keep: "filter (\<lambda>p. p \<noteq> [] \<and> p \<noteq> ''.'') t = t"
    using wf by (auto simp: filter_id_conv)
  have "hd t \<in> set t" using False by simp
  then have st: "take 1 (join ''/'' t) \<noteq> ''/''"
    using False wf [of "hd t"] by (intro join_starts) auto
  from root show ?thesis
  proof (elim disjE)
    assume "r = []"
    with False sp keep st show ?thesis
      by (simp add: str_path_def Path_def)
  next
    assume "r = ''/''"
    with False sp keep st show ?thesis
      by (simp add: str_path_def Path_def)
  next
    assume "r = ''//''"
    with False sp keep st show ?thesis
      by (simp add: str_path_def Path_def)
  qed
qed

lemma Path_str_path_Path: "Path (str_path (Path s)) = Path s"
proof -
  obtain r t where p: "Path s = PurePath r t"
    by (cases "Path s")
  have "Path (str_path (PurePath r t)) = PurePath r t"
  proof (rule Path_str_path)
    fix x assume "x \<in> set t"
    with path_tail_Path [of x s] p show "x \<noteq> [] \<and> x \<noteq> ''.'' \<and> CHR ''/'' \<notin> set x"
      by simp
  next
    from path_root_Path [of s] p show "r = [] \<or> r = ''/'' \<or> r = ''//''"
      by simp
  qed
  with p show ?thesis by simp
qed

subsection \<open>Directories under a case-sensitive flavour\<close>

text \<open>
  The pattern \<^verbatim>\<open>*\<close> followed by literal characters matches the names that end with them;
  so under a case-sensitive flavour a directory yields its entries ending in \<^verbatim>\<open>.mp3\<close>,
  then those ending in \<^verbatim>\<open>.MP3\<close>, stably sorted by lowered name. For the directory of the
  specification's example, whatever the order in which the system lists it, the result
  is \<^verbatim>\<open>a.mp3\<close> followed by \<^verbatim>\<open>B.MP3\<close>.
\<close>

lemma fnmatch_literal:
  "CHR ''*'' \<notin> set lit \<Longrightarrow> CHR ''?'' \<notin> set lit \<Longrightarrow> fnmatch lit n \<longleftrightarrow> n = lit"
proof (induction lit arbitrary: n)
  case Nil
  then show ?case by (cases n) simp_all
next
  case (Cons p ps)
  then show ?case by (cases n) auto
qed

lemma fnmatch_star_literal:
  assumes "CHR ''*'' \<notin> set lit" and "CHR ''?'' \<notin> set lit"
  shows "fnmatch (CHR ''*'' # lit) n \<longleftrightarrow> (\<exists>pre. n = pre @ lit)"
proof (induction n)
  case Nil
  show ?case using fnmatch_literal [OF assms, of "[]"] by auto
next
  case (Cons c cs)
  have "fnmatch (CHR ''*'' # lit) (c # cs) \<longleftrightarrow> c # cs = lit \<or> (\<exists>pre. cs = pre @ lit)"
    using fnmatch_literal [OF assms, of "c # cs"] Cons.IH by simp
  also have "\<dots> \<longleftrightarrow> (\<exists>pre. c # cs = pre @ lit)"
    by (auto simp: Cons_eq_append_conv)
  finally show ?case .
qed

lemma get_mp3_files_directory:
  assumes "stat_failure env (Path s) = None" and "dir_at fs (Path s)" and "glob_case_sensitive env"
    and "scandir_error env (Path s) = None"
  shows "get_mp3_files env fs (Some s) =
     Inr (map str_path
       (sort_key (\<lambda>x. lower (name x))
          (map (make_child (Path s))
             (filter (\<lambda>n. \<exists>pre. n = pre @ ''.mp3'') (scandir fs (Path s))
              @ filter (\<lambda>n. \<exists>pre. n = pre @ ''.MP3'') (scandir fs (Path s))))))"
proof -
  have m1: "fnmatch ''*.mp3'' = (\<lambda>n. \<exists>pre. n = pre @ ''.mp3'')"
    using fnmatch_star_literal [of "''.mp3''"] by (simp add: fun_eq_iff)
  have m2: "fnmatch ''*.MP3'' = (\<lambda>n. \<exists>pre. n = pre @ ''.MP3'')"
    using fnmatch_star_literal [of "''.MP3''"] by (simp add: fun_eq_iff)
  from assms(2) have nf: "\<not> file_at fs (Path s)"
    by (rule file_at_not_dir)
  have f: "is_file env fs (Path s) = Inr False" and d: "is_dir env fs (Path s) = Inr True"
    using assms(1,2) nf by (simp_all add: is_file_cases is_dir_cases)
  from assms(3,4) show ?thesis
    unfolding get_mp3_files_def glob_def Let_def option.case f d
    by (simp add: m1 m2 del: fnmatch.simps)
qed

lemma filter_single:
  "distinct xs \<Longrightarrow> x \<in> set xs \<Longrightarrow> (\<And>y. y \<in> set xs \<Longrightarrow> P y \<longleftrightarrow> y = x) \<Longrightarrow> filter P xs = [x]"
proof (induction xs)
  case Nil
  then show ?case by simp
next
  case (Cons a xs)
  show ?case
  proof (cases "a = x")
    case True
    with Cons.prems have "filter P xs = []"
      by (auto simp: filter_empty_conv)
    with True Cons.prems(3) [of a] show ?thesis by simp
  next
    case False
    with Cons.prems have "filter P xs = [x]"
      by (intro Cons.IH) auto
    with False Cons.prems(3) [of a] show ?thesis by simp
  qed
qed

lemma get_mp3_files_example:
  assumes look: "stat_failure env (Path s) = None" and list: "scandir_error env (Path s) = None"
    and dir: "fs (Path s) = Some (Dir es)" and cs: "glob_case_sensitive env"
    and es: "set es = {''a.mp3'', ''B.MP3'', ''c.txt''}" and d: "distinct es"
  shows "get_mp3_files env fs (Some s)
     = Inr [str_path (make_child (Path s) ''a.mp3''), str_path (make_child (Path s) ''B.MP3'')]"
proof -
  have isd: "is_dir env fs (Path s) = Inr True" and nf: "is_file env fs (Path s) = Inr False"
    using dir look by (simp_all add: is_dir_cases is_file_cases dir_at_def file_at_def)
  have sc: "scandir fs (Path s) = es"
    using dir by (simp add: scandir_def)
  have a1: "fnmatch ''*.mp3'' ''a.mp3''" and a2: "\<not> fnmatch ''*.mp3'' ''B.MP3''"
    and a3: "\<not> fnmatch ''*.mp3'' ''c.txt''"
    by code_simp+
  have b1: "\<not> fnmatch ''*.MP3'' ''a.mp3''" and b2: "fnmatch ''*.MP3'' ''B.MP3''"
    and b3: "\<not> fnmatch ''*.MP3'' ''c.txt''"
    by code_simp+
  have n: "''a.mp3'' \<noteq> ''B.MP3''" "''a.mp3'' \<noteq> ''c.txt''" "''B.MP3'' \<noteq> ''c.txt''"
    by simp_all
  have f1: "filter (fnmatch ''*.mp3'') es = [''a.mp3'']"
  proof (rule filter_single [OF d])
    show "''a.mp3'' \<in> set es" by (simp only: es insertI1)
  next
    fix y assume "y \<in> set es"
    then have "y = ''a.mp3'' \<or> y = ''B.MP3'' \<or> y = ''c.txt''"
      by (simp only: es insert_iff empty_iff) blast
    then show "fnmatch ''*.mp3'' y \<longleftrightarrow> y = ''a.mp3''"
      using a1 a2 a3 n by (elim disjE) (simp_all only: simp_thms not_sym)
  qed
  have f2: "filter (fnmatch ''*.MP3'') es = [''B.MP3'']"
  proof (rule filter_single [OF d])
    show "''B.MP3'' \<in> set es" by (simp only: es insert_iff simp_thms)
  next
    fix y assume "y \<in> set es"
    then have "y = ''a.mp3'' \<or> y = ''B.MP3'' \<or> y = ''c.txt''"
      by (simp only: es insert_iff empty_iff) blast
    then show "fnmatch ''*.MP3'' y \<longleftrightarrow> y = ''B.MP3''"
      using b1 b2 b3 n by (elim disjE) (simp_all only: simp_thms not_sym)
  qed
  have k: "lower ''a.mp3'' \<le> lower ''B.MP3''"
    by code_simp
  from cs have cs': "glob_case_sensitive env = True" by simp
  have g1: "glob env fs (Path s) ''*.mp3'' = Inr [make_child (Path s) ''a.mp3'']"
    unfolding glob_def list cs' sc if_True f1 by simp
  have g2: "glob env fs (Path s) ''*.MP3'' = Inr [make_child (Path s) ''B.MP3'']"
    unfolding glob_def list cs' sc if_True f2 by simp
  have srt: "sort_key (\<lambda>x. lower (name x)) [make_child (Path s) ''a.mp3'', make_child (Path s) ''B.MP3'']
      = [make_child (Path s) ''a.mp3'', make_child (Path s) ''B.MP3'']"
    using k by simp
  show ?thesis
    unfolding get_mp3_files_def Let_def option.case g1 g2 isd nf sum.case append.simps srt by simp
qed

subsection \<open>The claims\<close>

text \<open>
  Claim C8. When the target is an existing file (\<^verbatim>\<open>is_file\<close> answers true) whose extension
  is \<^verbatim>\<open>.mp3\<close> in any mix of upper and lower case, \<^verbatim>\<open>get_mp3_files\<close> returns the one-element
  list holding \<^verbatim>\<open>str(Path(target))\<close>, a string that denotes exactly the target path.
\<close>

theorem get_mp3_files_single_file:
  assumes "is_file env fs (Path s) = Inr True" and "lower (suffix (Path s)) = ''.mp3''"
  shows "get_mp3_files env fs (Some s) = Inr [str_path (Path s)]
     \<and> map_sum id (map Path) (get_mp3_files env fs (Some s)) = Inr [Path s]"
  using assms by (simp add: get_mp3_files_def Path_str_path_Path)

theorem get_mp3_files_single_file_witness:
  "is_file (demo_env True) [Path ''ep1.MP3'' \<mapsto> File ''audio''] (Path ''ep1.MP3'') = Inr True
   \<and> lower (suffix (Path ''ep1.MP3'')) = ''.mp3''
   \<and> get_mp3_files (demo_env True) [Path ''ep1.MP3'' \<mapsto> File ''audio''] (Some ''ep1.MP3'')
       = Inr [''ep1.MP3'']"
proof -
  have f: "is_file (demo_env True) [Path ''ep1.MP3'' \<mapsto> File ''audio''] (Path ''ep1.MP3'') = Inr True"
    by code_simp
  have x: "lower (suffix (Path ''ep1.MP3'')) = ''.mp3''"
    by code_simp
  have s: "str_path (Path ''ep1.MP3'') = ''ep1.MP3''"
    by code_simp
  from get_mp3_files_single_file [OF f x] f x s show ?thesis
    by simp
qed




text \<open>
  Claim C1 says that a directory yields exactly its entries whose extension is \<^verbatim>\<open>.mp3\<close>
  in any case, without duplicates. The code globs for \<^verbatim>\<open>*.mp3\<close> and \<^verbatim>\<open>*.MP3\<close> only, although
  its comment announces a case-insensitive search and the single-file branch lowers the
  suffix. Under a case-sensitive flavour the entry \<^verbatim>\<open>x.Mp3\<close>, whose lowered suffix is
  \<^verbatim>\<open>.mp3\<close>, is not returned; under a case-insensitive flavour both patterns match every
  entry and \<^verbatim>\<open>a.mp3\<close> is returned twice.
\<close>

theorem get_mp3_files_misses_mixed_case:
  "lower (suffix (make_child (Path ''pod'') ''x.Mp3'')) = ''.mp3''
   \<and> get_mp3_files (demo_env True) [Path ''pod'' \<mapsto> Dir [''x.Mp3'']] (Some ''pod'') = Inr []
   \<and> get_mp3_files (demo_env False) [Path ''pod'' \<mapsto> Dir [''a.mp3'']] (Some ''pod'')
       = Inr [''pod/a.mp3'', ''pod/a.mp3'']"
  by code_simp

section \<open>The result writer\<close>

subsection \<open>The shape of the timestamp\<close>

lemma is_digit_digit_char: "d < 10 \<Longrightarrow> is_digit (digit_char d)"
  by (simp add: is_digit_def digit_char_def)

lemma is_digit_zero: "is_digit CHR ''0''"
  by (simp add: is_digit_def)

lemma set_dec: "c \<in> set (dec n) \<Longrightarrow> is_digit c"
proof (induction n arbitrary: c rule: dec.induct)
  case (1 n)
  show ?case
  proof (cases "n < 10")
    case True
    with "1.prems" have "c = digit_char n"
      by (subst (asm) dec.simps) simp
    with True show ?thesis
      by (simp add: is_digit_digit_char)
  next
    case False
    with "1.prems" have "c \<in> set (dec (n div 10)) \<or> c = digit_char (n mod 10)"
      by (subst (asm) dec.simps) auto
    then show ?thesis
      using "1.IH" [OF False] by (auto simp: is_digit_digit_char)
  qed
qed

lemma length_dec: "0 < k \<Longrightarrow> n < 10 ^ k \<Longrightarrow> length (dec n) \<le> k"
proof (induction k arbitrary: n)
  case 0
  then show ?case by simp
next
  case (Suc j)
  show ?case
  proof (cases "n < 10")
    case True
    then have "dec n = [digit_char n]"
      by (subst dec.simps) simp
    then show ?thesis by simp
  next
    case False
    then have d: "dec n = dec (n div 10) @ [digit_char (n mod 10)]"
      by (subst dec.simps) simp
    from Suc.prems have lt: "n div 10 < 10 ^ j"
      by (simp add: less_mult_imp_div_less mult.commute)
    from False have "0 < n div 10" by simp
    with lt have "0 < j"
      by (cases j) simp_all
    from Suc.IH [OF this lt] d show ?thesis by simp
  qed
qed

lemma matches_fmt_digits:
  "matches_fmt (replicate (length s) CHR ''d'') s \<longleftrightarrow> (\<forall>c \<in> set s. is_digit c)"
  by (induction s) auto

lemma matches_fmt_append:
  "length f1 = length s1 \<Longrightarrow>
   matches_fmt (f1 @ f2) (s1 @ s2) \<longleftrightarrow> matches_fmt f1 s1 \<and> matches_fmt f2 s2"
  by (induction f1 s1 rule: list_induct2) auto

lemma length_zfill: "length s \<le> w \<Longrightarrow> length (zfill w s) = w"
  by (simp add: zfill_def)

lemma zfill_dec:
  assumes "0 < k" and "n < 10 ^ k"
  shows "length (zfill k (dec n)) = k" and "matches_fmt (replicate k CHR ''d'') (zfill k (dec n))"
proof -
  show len: "length (zfill k (dec n)) = k"
    using length_dec [OF assms] by (rule length_zfill)
  have "\<forall>c \<in> set (zfill k (dec n)). is_digit c"
    by (auto simp: zfill_def is_digit_zero set_dec)
  then have "matches_fmt (replicate (length (zfill k (dec n))) CHR ''d'') (zfill k (dec n))"
    by (simp only: matches_fmt_digits)
  then show "matches_fmt (replicate k CHR ''d'') (zfill k (dec n))"
    by (simp only: len)
qed

lemma length_dec_lower: "10 ^ k \<le> n \<Longrightarrow> k < length (dec n)"
proof (induction k arbitrary: n)
  case 0
  show ?case
    by (subst dec.simps) simp
next
  case (Suc j)
  from Suc.prems have m: "10 * 10 ^ j \<le> n" by simp
  have "(10::nat) \<le> 10 * 10 ^ j"
    by simp
  from this m have "10 \<le> n"
    by (rule order_trans)
  then have ge: "\<not> n < 10" by simp
  from m have "(10 * 10 ^ j) div 10 \<le> n div 10"
    by (rule div_le_mono)
  then have d: "10 ^ j \<le> n div 10" by simp
  from ge have "dec n = dec (n div 10) @ [digit_char (n mod 10)]"
    by (subst dec.simps) simp
  with Suc.IH [OF d] show ?case by simp
qed

lemma dec_four_digits:
  assumes "1000 \<le> n" and "n < 10 ^ 4"
  shows "matches_fmt (replicate 4 CHR ''d'') (dec n)" and "length (dec n) = 4"
proof -
  have "10 ^ 3 \<le> n" using assms(1) by simp
  then have "3 < length (dec n)" by (rule length_dec_lower)
  moreover have "length (dec n) \<le> 4"
    using assms(2) by (intro length_dec) simp_all
  ultimately show len: "length (dec n) = 4" by simp
  have "\<forall>c \<in> set (dec n). is_digit c"
    by (auto simp: set_dec)
  then have "matches_fmt (replicate (length (dec n)) CHR ''d'') (dec n)"
    by (simp only: matches_fmt_digits)
  then show "matches_fmt (replicate 4 CHR ''d'') (dec n)"
    by (simp only: len)
qed

lemma strftime_is_timestamp:
  assumes "valid_datetime dt" and "1000 \<le> year dt"
  shows "is_timestamp (strftime dt)"
proof -
  from assms have b: "year dt < 10 ^ 4" "month dt < 10 ^ 2" "day dt < 10 ^ 2" "hour dt < 10 ^ 2"
    "minute dt < 10 ^ 2" "second dt < 10 ^ 2"
    by (simp_all add: valid_datetime_def)
  have fmt: "''dddd-dd-dd dd:dd:dd'' =
      replicate 4 CHR ''d'' @ ''-'' @ replicate 2 CHR ''d'' @ ''-'' @ replicate 2 CHR ''d'' @ '' ''
      @ replicate 2 CHR ''d'' @ '':'' @ replicate 2 CHR ''d'' @ '':'' @ replicate 2 CHR ''d''"
    by (simp add: numeral_eq_Suc)
  note y = dec_four_digits [OF assms(2) b(1)] and mo = zfill_dec [OF _ b(2)] and d = zfill_dec [OF _ b(3)]
    and h = zfill_dec [OF _ b(4)] and mi = zfill_dec [OF _ b(5)] and se = zfill_dec [OF _ b(6)]
  have 6: "matches_fmt (replicate 2 CHR ''d'') (zfill 2 (dec (second dt)))"
    using se(2) by simp
  have 5: "matches_fmt (replicate 2 CHR ''d'' @ '':'' @ replicate 2 CHR ''d'')
             (zfill 2 (dec (minute dt)) @ '':'' @ zfill 2 (dec (second dt)))"
    using mi 6 by (simp add: matches_fmt_append)
  have 4: "matches_fmt (replicate 2 CHR ''d'' @ '':'' @ replicate 2 CHR ''d'' @ '':'' @ replicate 2 CHR ''d'')
             (zfill 2 (dec (hour dt)) @ '':'' @ zfill 2 (dec (minute dt)) @ '':'' @ zfill 2 (dec (second dt)))"
    using h 5 by (simp add: matches_fmt_append)
  have 3: "matches_fmt (replicate 2 CHR ''d'' @ '' '' @ replicate 2 CHR ''d'' @ '':'' @ replicate 2 CHR ''d''
               @ '':'' @ replicate 2 CHR ''d'')
             (zfill 2 (dec (day dt)) @ '' '' @ zfill 2 (dec (hour dt)) @ '':'' @ zfill 2 (dec (minute dt))
               @ '':'' @ zfill 2 (dec (second dt)))"
    using d 4 by (simp add: matches_fmt_append)
  have 2: "matches_fmt (replicate 2 CHR ''d'' @ ''-'' @ replicate 2 CHR ''d'' @ '' '' @ replicate 2 CHR ''d''
               @ '':'' @ replicate 2 CHR ''d'' @ '':'' @ replicate 2 CHR ''d'')
             (zfill 2 (dec (month dt)) @ ''-'' @ zfill 2 (dec (day dt)) @ '' '' @ zfill 2 (dec (hour dt))
               @ '':'' @ zfill 2 (dec (minute dt)) @ '':'' @ zfill 2 (dec (second dt)))"
    using mo 3 by (simp add: matches_fmt_append)
  have 1: "matches_fmt (replicate 4 CHR ''d'' @ ''-'' @ replicate 2 CHR ''d'' @ ''-'' @ replicate 2 CHR ''d''
               @ '' '' @ replicate 2 CHR ''d'' @ '':'' @ replicate 2 CHR ''d'' @ '':'' @ replicate 2 CHR ''d'')
             (dec (year dt) @ ''-'' @ zfill 2 (dec (month dt)) @ ''-'' @ zfill 2 (dec (day dt))
               @ '' '' @ zfill 2 (dec (hour dt)) @ '':'' @ zfill 2 (dec (minute dt)) @ '':''
               @ zfill 2 (dec (second dt)))"
    using y 2 by (simp add: matches_fmt_append)
  show ?thesis
    unfolding is_timestamp_def strftime_def fmt by (rule 1)
qed

subsection \<open>The artifact of a successful call\<close>

lemma transcribe_file_InrE:
  assumes "transcribe_file env model a dopt w = (Inr r, w')"
  obtains raw fs1 where "transcribe env model (str_path (Path a)) = Inr raw"
    and "open_write env (disk w)
           (truediv (case dopt of None \<Rightarrow> OUTPUT_FOLDER env | Some d \<Rightarrow> d) (stem (Path a) @ ''.txt'')) = Inr fs1"
    and "first_write_error env a = None"
proof (cases "transcribe env model (str_path (Path a))")
  case (Inl e)
  with assms show ?thesis
    by (simp add: transcribe_file_model_raises)
next
  case (Inr raw)
  show ?thesis
  proof (cases "open_write env (disk w)
           (truediv (case dopt of None \<Rightarrow> OUTPUT_FOLDER env | Some d \<Rightarrow> d) (stem (Path a) @ ''.txt''))")
    case (Inl e)
    with Inr assms show ?thesis
      by (simp add: transcribe_file_open_raises)
  next
    case oInr: (Inr fs1)
    have "first_write_error env a = None"
      using assms unfolding transcribe_file_opened [OF Inr refl oInr]
      by (cases "first_write_error env a") auto
    with Inr oInr that show ?thesis by blast
  qed
qed

text \<open>A call that returns has made its five writes.\<close>

lemma transcribe_file_writes:
  assumes "transcribe env model (str_path (Path a)) = Inr raw"
    and "out = truediv (case dopt of None \<Rightarrow> OUTPUT_FOLDER env | Some d \<Rightarrow> d) (stem (Path a) @ ''.txt'')"
    and "open_write env (disk w) out = Inr fs1"
    and "first_write_error env a = None"
  shows "transcribe_file env model a dopt w =
     (Inr (str_path out),
      prints [''[OK] Saved transcription to: '' @ str_path out,
              ''     Word count: ~'' @ dec (count_words False (strip raw)) @ '' words'']
        ((tf_called model a w)
           \<lparr>disk := fs1(out \<mapsto> File (spec_artifact_layout (name (Path a)) (clock env (ticks w)) (strip raw))),
             ticks := Suc (ticks w)\<rparr>))"
proof -
  have t: "transcript_of env model a = strip raw"
    using assms(1) by (simp add: transcript_of_def)
  have z: "write_error env a 0 = None"
    using assms(4) by (simp add: first_write_error_None_iff)
  show ?thesis
    unfolding transcribe_file_opened [OF assms(1,2,3)] assms(4)
    by (simp add: written_complete [OF assms(4)] t z)
qed

text \<open>
  Claim C3. Whenever \<^verbatim>\<open>transcribe_file\<close> returns, it returns the path of the artifact,
  which is the output directory's child named after the stem of the source file with
  \<^verbatim>\<open>.txt\<close> appended, and that file holds, in this order: the line
  \<^verbatim>\<open>Transcription of:\<close> with the source file's name, the line \<^verbatim>\<open>Generated on:\<close> with the
  clock's reading, the line \<^verbatim>\<open>Model used: whisper-base\<close>, a line of 60 \<^verbatim>\<open>=\<close>, an empty line,
  and the stripped text of the model. The clock's reading has the shape
  \<^verbatim>\<open>dddd-dd-dd dd:dd:dd\<close> when its year has four digits (the C library does not pad the
  year).
\<close>

theorem transcribe_file_artifact:
  assumes ok: "transcribe_file env model a dopt w = (Inr r, w')"
    and now: "valid_datetime (clock env (ticks w))"
    and year: "1000 \<le> year (clock env (ticks w))"
  shows "\<exists>raw. transcribe env model (str_path (Path a)) = Inr raw
     \<and> r = str_path (make_child (case dopt of None \<Rightarrow> OUTPUT_FOLDER env | Some d \<Rightarrow> d)
                         (stem (Path a) @ ''.txt''))
     \<and> disk w' (make_child (case dopt of None \<Rightarrow> OUTPUT_FOLDER env | Some d \<Rightarrow> d)
                    (stem (Path a) @ ''.txt''))
         = Some (File (''Transcription of: '' @ name (Path a) @ NL
                       @ ''Generated on: '' @ strftime (clock env (ticks w)) @ NL
                       @ ''Model used: whisper-base'' @ NL
                       @ replicate 60 CHR ''='' @ NL
                       @ NL
                       @ strip raw))
     \<and> is_timestamp (strftime (clock env (ticks w)))"
proof -
  define out where "out = truediv (case dopt of None \<Rightarrow> OUTPUT_FOLDER env | Some d \<Rightarrow> d) (stem (Path a) @ ''.txt'')"
  have child: "out = make_child (case dopt of None \<Rightarrow> OUTPUT_FOLDER env | Some d \<Rightarrow> d) (stem (Path a) @ ''.txt'')"
    by (simp add: out_def output_path_child)
  from ok obtain raw fs1 where raw: "transcribe env model (str_path (Path a)) = Inr raw"
    and ow: "open_write env (disk w) out = Inr fs1"
    and wr: "first_write_error env a = None"
    unfolding out_def by (rule transcribe_file_InrE)
  from transcribe_file_writes [OF raw out_def ow wr] ok
  have r: "r = str_path out"
    and w': "disk w' out = Some (File (spec_artifact_layout (name (Path a)) (clock env (ticks w)) (strip raw)))"
    by auto
  from raw r w' strftime_is_timestamp [OF now year] show ?thesis
    unfolding child spec_artifact_layout_def by (intro exI [of _ raw]) simp
qed

theorem transcribe_file_artifact_witness:
  "fst (transcribe_file (demo_env True) 7 ''/app/input/ep1.mp3'' (Some (Path ''/app/output''))
          (demo_world [Path ''/app/output'' \<mapsto> Dir []])) = Inr ''/app/output/ep1.txt''
   \<and> valid_datetime (clock (demo_env True) (ticks (demo_world [Path ''/app/output'' \<mapsto> Dir []])))
   \<and> 1000 \<le> year (clock (demo_env True) (ticks (demo_world [Path ''/app/output'' \<mapsto> Dir []])))
   \<and> disk (snd (transcribe_file (demo_env True) 7 ''/app/input/ep1.mp3'' (Some (Path ''/app/output''))
                  (demo_world [Path ''/app/output'' \<mapsto> Dir []])))
        (Path ''/app/output/ep1.txt'')
      = Some (File (''Transcription of: ep1.mp3'' @ NL @ ''Generated on: 2024-05-07 09:03:00'' @ NL
                    @ ''Model used: whisper-base'' @ NL
                    @ ''============================================================'' @ NL @ NL
                    @ ''hello world''))
   \<and> is_timestamp ''2024-05-07 09:03:00''"
proof -
  let ?w = "demo_world [Path ''/app/output'' \<mapsto> Dir []]"
  let ?r = "transcribe_file (demo_env True) 7 ''/app/input/ep1.mp3'' (Some (Path ''/app/output'')) ?w"
  have f: "fst ?r = Inr ''/app/output/ep1.txt''"
    by code_simp
  then have h: "?r = (Inr ''/app/output/ep1.txt'', snd ?r)"
    by (simp add: prod_eq_iff)
  have v: "valid_datetime (clock (demo_env True) (ticks ?w))"
    by code_simp
  have y: "1000 \<le> year (clock (demo_env True) (ticks ?w))"
    by code_simp
  have raw: "transcribe (demo_env True) 7 (str_path (Path ''/app/input/ep1.mp3'')) = Inr ('' hello world '' @ NL)"
    by code_simp
  have p: "make_child (case Some (Path ''/app/output'') of None \<Rightarrow> OUTPUT_FOLDER (demo_env True) | Some d \<Rightarrow> d)
             (stem (Path ''/app/input/ep1.mp3'') @ ''.txt'') = Path ''/app/output/ep1.txt''"
    by code_simp
  have c: "''Transcription of: '' @ name (Path ''/app/input/ep1.mp3'') @ NL
           @ ''Generated on: '' @ strftime (clock (demo_env True) (ticks ?w)) @ NL
           @ ''Model used: whisper-base'' @ NL @ replicate 60 CHR ''='' @ NL @ NL
           @ strip ('' hello world '' @ NL)
         = ''Transcription of: ep1.mp3'' @ NL @ ''Generated on: 2024-05-07 09:03:00'' @ NL
           @ ''Model used: whisper-base'' @ NL
           @ ''============================================================'' @ NL @ NL
           @ ''hello world''"
    by code_simp
  have t: "strftime (clock (demo_env True) (ticks ?w)) = ''2024-05-07 09:03:00''"
    by code_simp
  from transcribe_file_artifact [OF h v y] raw
  have A: "disk (snd ?r) (Path ''/app/output/ep1.txt'')
      = Some (File (''Transcription of: '' @ name (Path ''/app/input/ep1.mp3'') @ NL
           @ ''Generated on: '' @ strftime (clock (demo_env True) (ticks ?w)) @ NL
           @ ''Model used: whisper-base'' @ NL @ replicate 60 CHR ''='' @ NL @ NL
           @ strip ('' hello world '' @ NL)))"
    and B: "is_timestamp (strftime (clock (demo_env True) (ticks ?w)))"
    unfolding p by auto
  from A have A': "disk (snd ?r) (Path ''/app/output/ep1.txt'')
      = Some (File (''Transcription of: ep1.mp3'' @ NL @ ''Generated on: 2024-05-07 09:03:00'' @ NL
                    @ ''Model used: whisper-base'' @ NL
                    @ ''============================================================'' @ NL @ NL
                    @ ''hello world''))"
    by (simp only: c)
  from B have B': "is_timestamp ''2024-05-07 09:03:00''"
    by (simp only: t)
  from f v y A' B' show ?thesis
    by (intro conjI)
qed

text \<open>
  Claim C7. When a call of \<^verbatim>\<open>transcribe_file\<close> has written an artifact and a second call for
  a source with the same stem and the same output directory gets a text from the model,
  the second call opens the same file and truncates it: afterwards the disk is the one
  before the second call with that one file replaced by what the second call wrote, so
  nothing of the first content is kept and no other file is created. When none of the
  second call's writes raises, it returns the same path, the file holds the second call's
  artifact, and the call prints the same lines as any other call (no warning).
\<close>

theorem transcribe_file_overwrites:
  fixes env :: "'m env"
  assumes first: "transcribe_file env m1 a1 dopt w = (Inr r1, w1)"
    and same: "stem (Path a1) = stem (Path a2)"
    and second: "transcribe env m2 (str_path (Path a2)) = Inr raw2"
  shows "\<exists>w2. transcribe_file env m2 a2 dopt w1 =
            ((case first_write_error env a2 of None \<Rightarrow> Inr r1 | Some (k, e) \<Rightarrow> Inl e), w2)
     \<and> (\<exists>c1. disk w1 (make_child (case dopt of None \<Rightarrow> OUTPUT_FOLDER env | Some d \<Rightarrow> d)
                          (stem (Path a2) @ ''.txt'')) = Some (File c1))
     \<and> disk w2 = (disk w1)
          (make_child (case dopt of None \<Rightarrow> OUTPUT_FOLDER env | Some d \<Rightarrow> d) (stem (Path a2) @ ''.txt'')
             \<mapsto> File (written env m2 a2 (clock env (ticks w1))))
     \<and> (first_write_error env a2 = None \<longrightarrow>
          disk w2 = (disk w1)
            (make_child (case dopt of None \<Rightarrow> OUTPUT_FOLDER env | Some d \<Rightarrow> d) (stem (Path a2) @ ''.txt'')
               \<mapsto> File (spec_artifact_layout (name (Path a2)) (clock env (ticks w1)) (strip raw2)))
          \<and> stdout w2 = stdout w1 @
               [NL @ replicate 60 CHR ''='', ''Transcribing: '' @ name (Path a2), replicate 60 CHR ''='',
                ''[OK] Saved transcription to: '' @ r1,
                ''     Word count: ~'' @ dec (count_words False (strip raw2)) @ '' words''])"
proof -
  define D where "D = (case dopt of None \<Rightarrow> OUTPUT_FOLDER env | Some d \<Rightarrow> d)"
  define out where "out = truediv D (stem (Path a2) @ ''.txt'')"
  have child: "out = make_child D (stem (Path a2) @ ''.txt'')"
    by (simp add: out_def output_path_child)
  have out1: "out = truediv (case dopt of None \<Rightarrow> OUTPUT_FOLDER env | Some d \<Rightarrow> d) (stem (Path a1) @ ''.txt'')"
    by (simp add: out_def D_def same)
  have out2: "out = truediv (case dopt of None \<Rightarrow> OUTPUT_FOLDER env | Some d \<Rightarrow> d) (stem (Path a2) @ ''.txt'')"
    by (simp add: out_def D_def)
  have par: "parent out = D"
    by (simp add: child)
  have neq: "D \<noteq> out"
    unfolding child by (rule not_sym) (rule make_child_neq)
  from first obtain raw1 fs1 where raw1: "transcribe env m1 (str_path (Path a1)) = Inr raw1"
    and ow1: "open_write env (disk w) out = Inr fs1"
    and wr1: "first_write_error env a1 = None"
    unfolding out1 by (rule transcribe_file_InrE)
  from transcribe_file_writes [OF raw1 out1 ow1 wr1] first
  have r1: "r1 = str_path out"
    and dw1: "disk w1 = fs1(out \<mapsto> File (spec_artifact_layout (name (Path a1)) (clock env (ticks w)) (strip raw1)))"
    by auto
  define es where "es = (if name out \<in> set (scandir (disk w) D) then scandir (disk w) D
                         else scandir (disk w) D @ [name out])"
  from ow1 have fs1: "fs1 = (disk w)(D \<mapsto> Dir es, out \<mapsto> File [])"
    and look: "stat_failure env out = None" and perm: "open_error env out = None"
    by (simp_all add: open_write_Inr_iff par es_def)
  have mem: "name out \<in> set es"
    by (simp add: es_def)
  have at_out: "disk w1 out = Some (File (spec_artifact_layout (name (Path a1)) (clock env (ticks w)) (strip raw1)))"
    by (simp add: dw1)
  have at_D: "disk w1 D = Some (Dir es)"
    using neq by (simp add: dw1 fs1)
  have "(disk w1)(D \<mapsto> Dir es) = disk w1"
    using at_D by (rule map_upd_triv)
  then have ow2: "open_write env (disk w1) out = Inr ((disk w1)(out \<mapsto> File []))"
    using at_out at_D mem look perm by (simp add: open_write_def stat_def par)
  define W where "W = (tf_called m2 a2 w1)
           \<lparr>disk := ((disk w1)(out \<mapsto> File []))(out \<mapsto> File (written env m2 a2 (clock env (ticks w1)))),
             ticks := (if write_error env a2 0 = None then Suc (ticks w1) else ticks w1)\<rparr>"
  define w2 where "w2 = (case first_write_error env a2 of
       None \<Rightarrow> prints [''[OK] Saved transcription to: '' @ str_path out,
                        ''     Word count: ~'' @ dec (count_words False (strip raw2)) @ '' words''] W
     | Some (k, e) \<Rightarrow> W)"
  have tf2: "transcribe_file env m2 a2 dopt w1 =
      ((case first_write_error env a2 of None \<Rightarrow> Inr r1 | Some (k, e) \<Rightarrow> Inl e), w2)"
    unfolding transcribe_file_opened [OF second out2 ow2] w2_def W_def r1
    by (simp split: option.splits)
  have d2: "disk w2 = (disk w1)(out \<mapsto> File (written env m2 a2 (clock env (ticks w1))))"
    by (simp add: w2_def W_def split: option.splits)
  have t2: "transcript_of env m2 a2 = strip raw2"
    using second by (simp add: transcript_of_def)
  have c2: "first_write_error env a2 = None \<longrightarrow>
          disk w2 = (disk w1)(out \<mapsto> File (spec_artifact_layout (name (Path a2)) (clock env (ticks w1)) (strip raw2)))
          \<and> stdout w2 = stdout w1 @
               [NL @ replicate 60 CHR ''='', ''Transcribing: '' @ name (Path a2), replicate 60 CHR ''='',
                ''[OK] Saved transcription to: '' @ r1,
                ''     Word count: ~'' @ dec (count_words False (strip raw2)) @ '' words'']"
  proof
    assume ok: "first_write_error env a2 = None"
    have "stdout w2 = stdout w1 @
               [NL @ replicate 60 CHR ''='', ''Transcribing: '' @ name (Path a2), replicate 60 CHR ''='',
                ''[OK] Saved transcription to: '' @ r1,
                ''     Word count: ~'' @ dec (count_words False (strip raw2)) @ '' words'']"
      by (simp add: w2_def W_def ok tf_called_def r1)
    moreover have "disk w2 = (disk w1)(out \<mapsto> File (spec_artifact_layout (name (Path a2)) (clock env (ticks w1)) (strip raw2)))"
      using d2 written_complete [OF ok, of m2 "clock env (ticks w1)"] t2 by simp
    ultimately show "disk w2 = (disk w1)(out \<mapsto> File (spec_artifact_layout (name (Path a2)) (clock env (ticks w1)) (strip raw2)))
          \<and> stdout w2 = stdout w1 @
               [NL @ replicate 60 CHR ''='', ''Transcribing: '' @ name (Path a2), replicate 60 CHR ''='',
                ''[OK] Saved transcription to: '' @ r1,
                ''     Word count: ~'' @ dec (count_words False (strip raw2)) @ '' words'']"
      by (rule conjI [rotated])
  qed
  show ?thesis
    unfolding D_def [symmetric] child [symmetric]
    apply (rule exI [of _ w2])
    apply (intro conjI)
       apply (rule tf2)
      apply (rule exI, rule at_out)
     apply (rule d2)
    apply (rule c2)
    done
qed

theorem transcribe_file_overwrites_witness:
  "fst (transcribe_file (demo_env True) 7 ''/app/input/ep1.mp3'' None
          (demo_world [Path ''/app/output'' \<mapsto> Dir []])) = Inr ''/app/output/ep1.txt''
   \<and> stem (Path ''/app/input/ep1.mp3'') = stem (Path ''/app/input/ep1.mp3'')
   \<and> transcribe (demo_env True) 8 (str_path (Path ''/app/input/ep1.mp3'')) = Inr ''second take''
   \<and> first_write_error (demo_env True) ''/app/input/ep1.mp3'' = None
   \<and> fst (transcribe_file (demo_env True) 8 ''/app/input/ep1.mp3'' None
            (snd (transcribe_file (demo_env True) 7 ''/app/input/ep1.mp3'' None
                    (demo_world [Path ''/app/output'' \<mapsto> Dir []]))))
      = Inr ''/app/output/ep1.txt''
   \<and> disk (snd (transcribe_file (demo_env True) 8 ''/app/input/ep1.mp3'' None
                  (snd (transcribe_file (demo_env True) 7 ''/app/input/ep1.mp3'' None
                          (demo_world [Path ''/app/output'' \<mapsto> Dir []])))))
        (Path ''/app/output/ep1.txt'')
      = Some (File (''Transcription of: ep1.mp3'' @ NL @ ''Generated on: 2024-05-07 09:03:01'' @ NL
                    @ ''Model used: whisper-base'' @ NL
                    @ ''============================================================'' @ NL @ NL
                    @ ''second take''))"
proof -
  let ?w = "demo_world [Path ''/app/output'' \<mapsto> Dir []]"
  let ?r1 = "transcribe_file (demo_env True) 7 ''/app/input/ep1.mp3'' None ?w"
  let ?r2 = "transcribe_file (demo_env True) 8 ''/app/input/ep1.mp3'' None (snd ?r1)"
  have f: "fst ?r1 = Inr ''/app/output/ep1.txt''"
    by code_simp
  then have h1: "?r1 = (Inr ''/app/output/ep1.txt'', snd ?r1)"
    by (simp add: prod_eq_iff)
  have h2: "transcribe (demo_env True) 8 (str_path (Path ''/app/input/ep1.mp3'')) = Inr ''second take''"
    by code_simp
  have wr: "first_write_error (demo_env True) ''/app/input/ep1.mp3'' = None"
    by code_simp
  have t: "ticks (snd ?r1) = 1"
    by code_simp
  have p: "make_child (case None of None \<Rightarrow> OUTPUT_FOLDER (demo_env True) | Some d \<Rightarrow> d)
             (stem (Path ''/app/input/ep1.mp3'') @ ''.txt'') = Path ''/app/output/ep1.txt''"
    by code_simp
  have c: "spec_artifact_layout (name (Path ''/app/input/ep1.mp3'')) (clock (demo_env True) 1) (strip ''second take'')
         = ''Transcription of: ep1.mp3'' @ NL @ ''Generated on: 2024-05-07 09:03:01'' @ NL
           @ ''Model used: whisper-base'' @ NL
           @ ''============================================================'' @ NL @ NL
           @ ''second take''"
    by code_simp
  from transcribe_file_overwrites [OF h1 refl h2] wr obtain w2 where
    r2: "?r2 = (Inr ''/app/output/ep1.txt'', w2)"
    and "disk w2 = (disk (snd ?r1))
          (make_child (case None of None \<Rightarrow> OUTPUT_FOLDER (demo_env True) | Some d \<Rightarrow> d)
             (stem (Path ''/app/input/ep1.mp3'') @ ''.txt'')
             \<mapsto> File (spec_artifact_layout (name (Path ''/app/input/ep1.mp3''))
                        (clock (demo_env True) (ticks (snd ?r1))) (strip ''second take'')))"
    by auto
  then have "disk (snd ?r2) (Path ''/app/output/ep1.txt'')
      = Some (File (spec_artifact_layout (name (Path ''/app/input/ep1.mp3''))
                        (clock (demo_env True) 1) (strip ''second take'')))"
    by (simp only: p t snd_conv fun_upd_same)
  moreover from r2 have "fst ?r2 = Inr ''/app/output/ep1.txt''"
    by simp
  ultimately show ?thesis
    using f h2 wr by (simp only: c)
qed

section \<open>The transcription invoker\<close>

text \<open>
  Claim C5 says that a failing model call surfaces as a \<^verbatim>\<open>TranscriptionError\<close> that carries
  the original exception. The script defines no such class and wraps nothing: in the
  example the model's \<^verbatim>\<open>RuntimeError\<close> is what \<^verbatim>\<open>transcribe_file\<close> raises.
\<close>

theorem transcribe_file_no_wrapper_counterexample:
  "transcribe (demo_env True) 7 (str_path (Path ''/app/input/b.mp3''))
     = Inl (Exn ''RuntimeError'' ''corrupt audio'' None)
   \<and> fst (transcribe_file (demo_env True) 7 ''/app/input/b.mp3'' None (demo_world demo_disk))
     = Inl (Exn ''RuntimeError'' ''corrupt audio'' None)
   \<and> \<not> is_TranscriptionError_of (Exn ''RuntimeError'' ''corrupt audio'' None)
         (Exn ''RuntimeError'' ''corrupt audio'' None)"
  by code_simp

text \<open>
  Claim C5 as amended. When the model call raises an exception, \<^verbatim>\<open>transcribe_file\<close> raises
  that same exception, unwrapped, before anything is written and before the clock is read;
  the batch loop catches it, adds no output path, and prints its message after
  \<^verbatim>\<open>[ERROR] Error transcribing\<close> and the file's path.
\<close>

theorem transcribe_file_propagates_cause:
  assumes "transcribe env model (str_path (Path a)) = Inl e"
  shows "fst (transcribe_file env model a dopt w) = Inl e
     \<and> disk (snd (transcribe_file env model a dopt w)) = disk w
     \<and> ticks (snd (transcribe_file env model a dopt w)) = ticks w
     \<and> fst (batch_loop env model t i [a] acc w) = acc
     \<and> last (stdout (snd (batch_loop env model t i [a] acc w)))
         = NL @ ''[ERROR] Error transcribing '' @ a @ '': '' @ str_exn e"
proof -
  have tf: "\<And>d v. transcribe_file env model a d v = (Inl e, tf_called model a v)"
    using assms by (rule transcribe_file_model_raises)
  have 1: "fst (transcribe_file env model a dopt w) = Inl e"
    and 2: "disk (snd (transcribe_file env model a dopt w)) = disk w"
    and 3: "ticks (snd (transcribe_file env model a dopt w)) = ticks w"
    by (simp_all add: tf tf_called_def)
  have 4: "fst (batch_loop env model t i [a] acc w) = acc"
    and 5: "last (stdout (snd (batch_loop env model t i [a] acc w)))
         = NL @ ''[ERROR] Error transcribing '' @ a @ '': '' @ str_exn e"
    by (simp_all add: tf)
  from 1 2 3 4 5 show ?thesis by blast
qed

theorem transcribe_file_propagates_cause_witness:
  "transcribe (demo_env True) 7 (str_path (Path ''/app/input/b.mp3''))
     = Inl (Exn ''RuntimeError'' ''corrupt audio'' None)
   \<and> fst (transcribe_file (demo_env True) 7 ''/app/input/b.mp3'' None (demo_world demo_disk))
     = Inl (Exn ''RuntimeError'' ''corrupt audio'' None)
   \<and> disk (snd (transcribe_file (demo_env True) 7 ''/app/input/b.mp3'' None (demo_world demo_disk)))
     = demo_disk
   \<and> last (stdout (snd (batch_loop (demo_env True) 7 3 2 [''/app/input/b.mp3''] [] (demo_world demo_disk))))
     = NL @ ''[ERROR] Error transcribing /app/input/b.mp3: corrupt audio''"
proof -
  have h: "transcribe (demo_env True) 7 (str_path (Path ''/app/input/b.mp3''))
     = Inl (Exn ''RuntimeError'' ''corrupt audio'' None)"
    by code_simp
  have d: "disk (demo_world demo_disk) = demo_disk"
    by (simp add: demo_world_def)
  have m: "NL @ ''[ERROR] Error transcribing '' @ ''/app/input/b.mp3'' @ '': ''
             @ str_exn (Exn ''RuntimeError'' ''corrupt audio'' None)
           = NL @ ''[ERROR] Error transcribing /app/input/b.mp3: corrupt audio''"
    by (simp add: str_exn_def)
  from transcribe_file_propagates_cause [OF h, of None "demo_world demo_disk" 3 2 "[]"] h d m
  show ?thesis by simp
qed

section \<open>The batch runner\<close>

text \<open>
  Claim C6. In every run that reaches the batch (the folders exist, at least one file was
  found, the model loads), the calls into Whisper are, in this order: one
  \<^verbatim>\<open>load_model\<close> with the configured size, then one \<^verbatim>\<open>transcribe\<close> per discovered file, in
  discovery order, each on the handle that this one load returned.
\<close>

theorem main_loads_model_once:
  fixes env :: "'m env"
  assumes E: "ensure_folders_exist env (prints banner_lines w0) = (Inr u, w2)"
    and F: "get_mp3_files env (disk w2) (input_path_of argv) = Inr files" "files \<noteq> []"
    and L: "load_model env MODEL_SIZE = Inr model"
  shows "\<exists>w'. main env argv w0 = (Returned, w')
     \<and> trace w' = trace w0 @ EvLoad MODEL_SIZE # map (\<lambda>f. EvTranscribe model (str_path (Path f))) files"
proof -
  from main_run [OF E F L] obtain w8 w' where
    w8: "w8 = snd (batch_loop env model (length files) 1 files [] (loop_entry env argv files w2))"
    and m: "main env argv w0 = (Returned, w')" and t: "trace w' = trace w8"
    by blast
  have "trace w2 = trace w0"
    using ensure_folders_exist_trace(1) [OF E] by simp
  then have "trace w8 = trace w0 @ EvLoad MODEL_SIZE # map (\<lambda>f. EvTranscribe model (str_path (Path f))) files"
    by (simp add: w8 trace_batch_loop)
  with m t show ?thesis by simp
qed

theorem main_loads_model_once_witness:
  "fst (ensure_folders_exist (demo_env True) (prints banner_lines (demo_world demo_disk))) = Inr ()
   \<and> get_mp3_files (demo_env True)
         (disk (snd (ensure_folders_exist (demo_env True) (prints banner_lines (demo_world demo_disk)))))
         (input_path_of [''transcribe.py''])
       = Inr [''/app/input/a.mp3'', ''/app/input/b.mp3'', ''/app/input/c.mp3'']
   \<and> load_model (demo_env True) MODEL_SIZE = Inr 7
   \<and> fst (main (demo_env True) [''transcribe.py''] (demo_world demo_disk)) = Returned
   \<and> trace (snd (main (demo_env True) [''transcribe.py''] (demo_world demo_disk)))
       = [EvLoad ''base'', EvTranscribe 7 ''/app/input/a.mp3'', EvTranscribe 7 ''/app/input/b.mp3'',
          EvTranscribe 7 ''/app/input/c.mp3'']"
proof -
  let ?e = "ensure_folders_exist (demo_env True) (prints banner_lines (demo_world demo_disk))"
  have e: "fst ?e = Inr ()"
    by code_simp
  then have E: "?e = (Inr (), snd ?e)"
    by (simp add: prod_eq_iff)
  have F: "get_mp3_files (demo_env True) (disk (snd ?e)) (input_path_of [''transcribe.py''])
       = Inr [''/app/input/a.mp3'', ''/app/input/b.mp3'', ''/app/input/c.mp3'']"
    by code_simp
  have ne: "[''/app/input/a.mp3'', ''/app/input/b.mp3'', ''/app/input/c.mp3''] \<noteq> []"
    by simp
  have L: "load_model (demo_env True) MODEL_SIZE = Inr 7"
    by code_simp
  have t: "trace (demo_world demo_disk) @ EvLoad MODEL_SIZE
             # map (\<lambda>f. EvTranscribe 7 (str_path (Path f)))
                 [''/app/input/a.mp3'', ''/app/input/b.mp3'', ''/app/input/c.mp3'']
       = [EvLoad ''base'', EvTranscribe (7::nat) ''/app/input/a.mp3'', EvTranscribe 7 ''/app/input/b.mp3'',
          EvTranscribe 7 ''/app/input/c.mp3'']"
    by code_simp
  from main_loads_model_once [OF E F ne L] obtain w' where
    "main (demo_env True) [''transcribe.py''] (demo_world demo_disk) = (Returned, w')"
    and "trace w' = trace (demo_world demo_disk) @ EvLoad MODEL_SIZE
             # map (\<lambda>f. EvTranscribe 7 (str_path (Path f)))
                 [''/app/input/a.mp3'', ''/app/input/b.mp3'', ''/app/input/c.mp3'']"
    by blast
  with e F L t show ?thesis
    by simp
qed






text \<open>
  Claim C10. When the batch holds two different input files with the same stem that both
  succeed (no later file with that stem opening the artifact again), the summary counts
  both, the list of generated files has one line for each, both have the same artifact
  path, and the file at that path is the artifact of the second: its header names the
  second file, its timestamp is the clock reading taken for the second file, its text is
  the second file's transcript.
\<close>

theorem main_same_stem_collision:
  fixes env :: "'m env"
  assumes E: "ensure_folders_exist env (prints banner_lines w0) = (Inr u, w2)"
    and F: "get_mp3_files env (disk w2) (input_path_of argv) = Inr (pre @ f1 # mid @ f2 # post)"
    and L: "load_model env MODEL_SIZE = Inr model"
    and distinct: "f1 \<noteq> f2" and same: "stem (Path f1) = stem (Path f2)"
    and ok1: "succeeds env model (disk w2) f1" and ok2: "succeeds env model (disk w2) f2"
    and later: "\<forall>g \<in> set post. opens env model (disk w2) g \<longrightarrow> stem (Path g) \<noteq> stem (Path f2)"
  shows "\<exists>w' head. main env argv w0 = (Returned, w')
     \<and> stdout w' = head
          @ [NL @ ''[OK] Successfully transcribed ''
               @ dec (length (filter (succeeds env model (disk w2)) (pre @ f1 # mid @ f2 # post)))
               @ '' of '' @ dec (length (pre @ f1 # mid @ f2 # post)) @ '' files'',
             NL @ ''Output folder: '' @ str_path (OUTPUT_FOLDER env),
             NL @ ''Generated files:'']
          @ map (\<lambda>f. ''  - '' @ name (Path (str_path (output_path_of env f))))
              (filter (succeeds env model (disk w2)) (pre @ f1 # mid @ f2 # post))
     \<and> f1 \<in> set (filter (succeeds env model (disk w2)) (pre @ f1 # mid @ f2 # post))
     \<and> f2 \<in> set (filter (succeeds env model (disk w2)) (pre @ f1 # mid @ f2 # post))
     \<and> output_path_of env f1 = output_path_of env f2
     \<and> disk w' (output_path_of env f2) =
         Some (File (spec_artifact_layout (name (Path f2))
                       (clock env (ticks w0
                          + length (filter (reads_clock env model (disk w2)) (pre @ f1 # mid))))
                       (transcript_of env model f2)))"
proof -
  let ?files = "pre @ f1 # mid @ f2 # post"
  let ?ok = "succeeds env model (disk w2)"
  let ?entry = "loop_entry env argv ?files w2"
  have ne: "?files \<noteq> []" by simp
  from main_run [OF E F ne L] obtain w8 w' where
    w8: "w8 = snd (batch_loop env model (length ?files) 1 ?files [] ?entry)"
    and m: "main env argv w0 = (Returned, w')"
    and s: "stdout w' = stdout w8 @ summary_lines env (length (filter ?ok ?files)) (length ?files)
           @ map (\<lambda>f. ''  - '' @ name (Path (str_path (output_path_of env f)))) (filter ?ok ?files)"
    and d: "disk w' = disk w8"
    by blast
  have D2: "dir_at (disk w2) (OUTPUT_FOLDER env)"
    by (rule ensure_folders_exist_ready [OF E])
  then have D: "dir_at (disk ?entry) (OUTPUT_FOLDER env)"
    by simp
  have tk: "ticks ?entry = ticks w0"
    using ensure_folders_exist_trace(2) [OF E] by simp
  have 1: "stdout w' = (stdout w8 @ [NL @ replicate 60 CHR ''='', ''  BATCH TRANSCRIPTION COMPLETE!'',
                                    replicate 60 CHR ''=''])
          @ [NL @ ''[OK] Successfully transcribed '' @ dec (length (filter ?ok ?files))
               @ '' of '' @ dec (length ?files) @ '' files'',
             NL @ ''Output folder: '' @ str_path (OUTPUT_FOLDER env),
             NL @ ''Generated files:'']
          @ map (\<lambda>f. ''  - '' @ name (Path (str_path (output_path_of env f)))) (filter ?ok ?files)"
    by (simp add: s summary_lines_def)
  have 2: "f1 \<in> set (filter ?ok ?files)" and 3: "f2 \<in> set (filter ?ok ?files)"
    using ok1 ok2 by simp_all
  have 4: "output_path_of env f1 = output_path_of env f2"
    using same by (simp add: output_path_of_eq_iff)
  have split: "?files = (pre @ f1 # mid) @ f2 # post"
    by simp
  from ok2 have op2: "opens env model (disk w2) f2" and wr2: "first_write_error env f2 = None"
    by (simp_all add: succeeds_iff [OF D2])
  have "disk (snd (batch_loop env model (length ?files) 1 ((pre @ f1 # mid) @ f2 # post) [] ?entry))
          (output_path_of env f2) =
     Some (File (written env model f2
                   (clock env (ticks ?entry + length (filter (reads_clock env model (disk ?entry)) (pre @ f1 # mid))))))"
  proof (rule disk_batch_loop_last_writer [OF D])
    show "opens env model (disk ?entry) f2"
      using op2 by simp
  next
    fix g
    assume "g \<in> set post" and "opens env model (disk ?entry) g"
    with later show "output_path_of env g \<noteq> output_path_of env f2"
      by (simp add: output_path_of_eq_iff)
  qed
  then have 5: "disk w' (output_path_of env f2) =
         Some (File (spec_artifact_layout (name (Path f2))
                       (clock env (ticks w0 + length (filter (reads_clock env model (disk w2)) (pre @ f1 # mid))))
                       (transcript_of env model f2)))"
    unfolding d w8 split [symmetric] tk written_complete [OF wr2] by simp
  show ?thesis
    apply (rule exI [of _ w'])
    apply (rule exI [of _ "stdout w8 @ [NL @ replicate 60 CHR ''='', ''  BATCH TRANSCRIPTION COMPLETE!'',
                                    replicate 60 CHR ''='']"])
    apply (intro conjI)
         apply (rule m)
        apply (rule 1)
       apply (rule 2)
      apply (rule 3)
     apply (rule 4)
    apply (rule 5)
    done
qed

theorem main_same_stem_collision_witness:
  "fst (ensure_folders_exist (demo_env True)
          (prints banner_lines
             (demo_world [Path ''/app'' \<mapsto> Dir [''input''],
                          Path ''/app/input'' \<mapsto> Dir [''a.mp3'', ''a.MP3'']]))) = Inr ()
   \<and> get_mp3_files (demo_env True)
         (disk (snd (ensure_folders_exist (demo_env True)
            (prints banner_lines
               (demo_world [Path ''/app'' \<mapsto> Dir [''input''],
                            Path ''/app/input'' \<mapsto> Dir [''a.mp3'', ''a.MP3'']])))))
         (input_path_of [''transcribe.py''])
       = Inr [''/app/input/a.mp3'', ''/app/input/a.MP3'']
   \<and> load_model (demo_env True) MODEL_SIZE = Inr 7
   \<and> ''/app/input/a.mp3'' \<noteq> ''/app/input/a.MP3''
   \<and> stem (Path ''/app/input/a.mp3'') = stem (Path ''/app/input/a.MP3'')
   \<and> output_path_of (demo_env True) ''/app/input/a.mp3'' = Path ''/app/output/a.txt''
   \<and> output_path_of (demo_env True) ''/app/input/a.MP3'' = Path ''/app/output/a.txt''
   \<and> disk (snd (main (demo_env True) [''transcribe.py'']
                  (demo_world [Path ''/app'' \<mapsto> Dir [''input''],
                               Path ''/app/input'' \<mapsto> Dir [''a.mp3'', ''a.MP3'']])))
        (Path ''/app/output/a.txt'')
      = Some (File (''Transcription of: a.MP3'' @ NL @ ''Generated on: 2024-05-07 09:03:01'' @ NL
                    @ ''Model used: whisper-base'' @ NL
                    @ ''============================================================'' @ NL @ NL
                    @ ''hello world''))"
proof -
  let ?w = "demo_world [Path ''/app'' \<mapsto> Dir [''input''], Path ''/app/input'' \<mapsto> Dir [''a.mp3'', ''a.MP3'']]"
  let ?e = "ensure_folders_exist (demo_env True) (prints banner_lines ?w)"
  let ?ok = "succeeds (demo_env True) 7 (disk (snd ?e))"
  let ?op = "opens (demo_env True) 7 (disk (snd ?e))"
  let ?rc = "reads_clock (demo_env True) 7 (disk (snd ?e))"
  have e: "fst ?e = Inr ()"
    by code_simp
  then have E: "?e = (Inr (), snd ?e)"
    by (simp add: prod_eq_iff)
  have F: "get_mp3_files (demo_env True) (disk (snd ?e)) (input_path_of [''transcribe.py''])
       = Inr ([] @ ''/app/input/a.mp3'' # [] @ ''/app/input/a.MP3'' # [])"
    by code_simp
  have L: "load_model (demo_env True) MODEL_SIZE = Inr 7"
    by code_simp
  have ne: "''/app/input/a.mp3'' \<noteq> ''/app/input/a.MP3''"
    by simp
  have st: "stem (Path ''/app/input/a.mp3'') = stem (Path ''/app/input/a.MP3'')"
    by code_simp
  have ok1: "?ok ''/app/input/a.mp3''" and ok2: "?ok ''/app/input/a.MP3''"
    by code_simp+
  have rc1: "?rc ''/app/input/a.mp3''"
    by code_simp
  have later: "\<forall>g \<in> set []. ?op g \<longrightarrow> stem (Path g) \<noteq> stem (Path ''/app/input/a.MP3'')"
    by simp
  have p1: "output_path_of (demo_env True) ''/app/input/a.mp3'' = Path ''/app/output/a.txt''"
    and p2: "output_path_of (demo_env True) ''/app/input/a.MP3'' = Path ''/app/output/a.txt''"
    by code_simp+
  have k: "ticks ?w + length (filter ?rc ([] @ ''/app/input/a.mp3'' # [])) = 1"
    using rc1 by (simp add: demo_world_def)
  have c: "spec_artifact_layout (name (Path ''/app/input/a.MP3'')) (clock (demo_env True) 1)
             (transcript_of (demo_env True) 7 ''/app/input/a.MP3'')
         = ''Transcription of: a.MP3'' @ NL @ ''Generated on: 2024-05-07 09:03:01'' @ NL
           @ ''Model used: whisper-base'' @ NL
           @ ''============================================================'' @ NL @ NL
           @ ''hello world''"
    by code_simp
  from main_same_stem_collision [OF E F L ne st ok1 ok2 later] obtain w' where
    "main (demo_env True) [''transcribe.py''] ?w = (Returned, w')"
    and "disk w' (output_path_of (demo_env True) ''/app/input/a.MP3'') =
         Some (File (spec_artifact_layout (name (Path ''/app/input/a.MP3''))
                       (clock (demo_env True)
                          (ticks ?w + length (filter ?rc ([] @ ''/app/input/a.mp3'' # []))))
                       (transcript_of (demo_env True) 7 ''/app/input/a.MP3'')))"
    by blast
  then have "disk (snd (main (demo_env True) [''transcribe.py''] ?w)) (Path ''/app/output/a.txt'')
      = Some (File (''Transcription of: a.MP3'' @ NL @ ''Generated on: 2024-05-07 09:03:01'' @ NL
                    @ ''Model used: whisper-base'' @ NL
                    @ ''============================================================'' @ NL @ NL
                    @ ''hello world''))"
    by (simp only: p2 k c snd_conv)
  with e F L ne st p1 p2 show ?thesis
    by simp
qed

end
